theory Spec2Isabelle
  imports Complex_Main "HOL-Library.Sublist"
begin

section \<open>JavaScript values and the platform functions the storage module calls\<close>

text \<open>
  \<^verbatim>\<open>PersistentStorage.ts\<close> stores values of TypeScript type \<^verbatim>\<open>any\<close>. The model
  covers \<^verbatim>\<open>undefined\<close>, \<^verbatim>\<open>null\<close>, booleans, integral numbers (of a size that
  JavaScript prints in full, without an exponent), strings, arrays and plain objects.
  A string is a list of code units below 256; an object is the list of its own
  properties in enumeration order, each name once.
\<close>

datatype jsvalue =
    JUndefined
  | JNull
  | JBool bool
  | JNum int
  | JStr string
  | JArr "jsvalue list"
  | JObj "(string \<times> jsvalue) list"

datatype js_error = TypeError | SyntaxError | CryptoError

text \<open>
  \<^verbatim>\<open>Number.prototype.toString(radix)\<close> on an integral number, for a radix from 2
  to 36.
\<close>

definition digit_char :: "int \<Rightarrow> char" where
  "digit_char d = (if d < 10 then char_of (48 + d) else char_of (87 + d))"

function digits :: "int \<Rightarrow> int \<Rightarrow> string" where
  "digits radix n =
     (if radix < 2 \<or> n < radix then [digit_char n]
      else digits radix (n div radix) @ [digit_char (n mod radix)])"
  by pat_completeness auto
termination
  by (relation "measure (\<lambda>(radix, n). nat n)") (auto intro: int_div_less_self)

declare digits.simps [simp del]

definition toString :: "int \<Rightarrow> int \<Rightarrow> string" where
  "toString radix n = (if n < 0 then CHR ''-'' # digits radix (- n) else digits radix n)"

text \<open>
  \<^verbatim>\<open>JSON.stringify\<close>. \<open>None\<close> is the result \<^verbatim>\<open>undefined\<close>. Inside an array
  \<^verbatim>\<open>undefined\<close> is written \<^verbatim>\<open>null\<close>; a property whose value is \<^verbatim>\<open>undefined\<close> is left out.
\<close>

definition hex4 :: "int \<Rightarrow> string" where
  "hex4 n = ''00'' @ [digit_char (n div 16), digit_char (n mod 16)]"

definition quoteChar :: "char \<Rightarrow> string" where
  "quoteChar c =
     (let n = of_char c :: int in
      if n = 8 then [CHR 0x5C, CHR ''b'']
      else if n = 9 then [CHR 0x5C, CHR ''t'']
      else if n = 10 then [CHR 0x5C, CHR ''n'']
      else if n = 12 then [CHR 0x5C, CHR ''f'']
      else if n = 13 then [CHR 0x5C, CHR ''r'']
      else if n = 34 then [CHR 0x5C, CHR 0x22]
      else if n = 92 then [CHR 0x5C, CHR 0x5C]
      else if n < 32 then [CHR 0x5C, CHR ''u''] @ hex4 n
      else [c])"

definition quoteJSONString :: "string \<Rightarrow> string" where
  "quoteJSONString s = [CHR 0x22] @ concat (map quoteChar s) @ [CHR 0x22]"

fun join :: "string \<Rightarrow> string list \<Rightarrow> string" where
  "join sep [] = []"
| "join sep [x] = x"
| "join sep (x # y # ys) = x @ sep @ join sep (y # ys)"

fun JSON_stringify :: "jsvalue \<Rightarrow> string option" where
  "JSON_stringify JUndefined = None"
| "JSON_stringify JNull = Some ''null''"
| "JSON_stringify (JBool b) = Some (if b then ''true'' else ''false'')"
| "JSON_stringify (JNum n) = Some (toString 10 n)"
| "JSON_stringify (JStr s) = Some (quoteJSONString s)"
| "JSON_stringify (JArr xs) =
     Some (''['' @ join '','' (map (\<lambda>x. case JSON_stringify x of None \<Rightarrow> ''null'' | Some t \<Rightarrow> t) xs) @ '']'')"
| "JSON_stringify (JObj ps) =
     Some (''{'' @ join '',''
        (concat (map (\<lambda>p. case JSON_stringify (snd p) of None \<Rightarrow> []
                            | Some t \<Rightarrow> [quoteJSONString (fst p) @ '':'' @ t]) ps)) @ ''}'')"


text \<open>\<^verbatim>\<open>typeof v === 'object'\<close>, truthiness, and reading a property.\<close>

fun typeof_object :: "jsvalue \<Rightarrow> bool" where
  "typeof_object JNull = True"
| "typeof_object (JArr xs) = True"
| "typeof_object (JObj ps) = True"
| "typeof_object v = False"

fun truthy :: "jsvalue \<Rightarrow> bool" where
  "truthy JUndefined = False"
| "truthy JNull = False"
| "truthy (JBool b) = b"
| "truthy (JNum n) = (n \<noteq> 0)"
| "truthy (JStr s) = (s \<noteq> [])"
| "truthy v = True"

text \<open>
  \<^verbatim>\<open>v[name]\<close> for a name that is not an array index or a built-in property:
  reading from \<^verbatim>\<open>null\<close> or \<^verbatim>\<open>undefined\<close> throws, an absent property is \<^verbatim>\<open>undefined\<close>.
\<close>

fun get_property :: "jsvalue \<Rightarrow> string \<Rightarrow> js_error + jsvalue" where
  "get_property JUndefined name = Inl TypeError"
| "get_property JNull name = Inl TypeError"
| "get_property (JObj ps) name = (case map_of ps name of None \<Rightarrow> Inr JUndefined | Some v \<Rightarrow> Inr v)"
| "get_property v name = Inr JUndefined"

text \<open>
  The functions of the Node.js runtime that the module calls and that are taken as
  parameters: the cipher of \<^verbatim>\<open>crypto.createCipher('aes192', key)\<close> from a string to
  hex text (\<^verbatim>\<open>update(s, 'utf8', 'hex') + final('hex')\<close>), its inverse
  \<^verbatim>\<open>crypto.createDecipher\<close> from hex text to a string, and \<^verbatim>\<open>JSON.parse\<close>.
  \<open>None\<close> means that the call throws.
\<close>

record platform =
  aes192_encrypt :: "string \<Rightarrow> string option"
  aes192_decrypt :: "string \<Rightarrow> string option"
  JSON_parse :: "string \<Rightarrow> jsvalue option"

text \<open>
  What one call reads from its surroundings: the clock (\<^verbatim>\<open>Date.now()\<close>, in
  milliseconds), the text of \<^verbatim>\<open>Math.random().toString(36)\<close> and the text of
  \<^verbatim>\<open>crypto.randomBytes(16).toString('hex')\<close>. All clock readings of one call are
  taken to be the same instant.
\<close>

record env =
  now :: int
  random36 :: string
  randomBytesHex :: string

section \<open>Data model of \<^verbatim>\<open>PersistentStorage.ts\<close>\<close>

record StoredObject =
  obj_id :: string
  obj_key :: string
  obj_value :: jsvalue
  createdAt :: int
  updatedAt :: int
  version :: int
  tags :: "string list"
  ttl :: "int option"

record StorageConfig =
  enableReplication :: bool
  replicationFactor :: nat
  syncInterval :: int
  maxStorageSize :: rat
  enableEncryption :: bool
  backupInterval :: int

datatype node_status = online | offline | syncing

record ReplicationNode =
  node_id :: string
  address :: string
  port :: int
  status :: node_status
  lastSync :: int
  storageUsed :: rat

text \<open>
  The fields of the class that the operations read and write. \<open>store\<close> is the
  \<^verbatim>\<open>Map\<close>, as the list of its entries in insertion order; \<open>sizeTracker\<close> is in KB.
  Sizes are quotients of a string length by 1024; they, their sums and the limits
  derived from \<open>maxStorageSize\<close> are computed exactly, as rational numbers, the
  factor \<^verbatim>\<open>0.9\<close> being 9/10. The statistics kept in the node list are read by
  no operation on the store.
\<close>

record storage =
  store :: "(string \<times> StoredObject) list"
  replicationNodes :: "ReplicationNode list"
  sizeTracker :: rat

text \<open>\<^verbatim>\<open>Map.prototype.get\<close>, \<^verbatim>\<open>set\<close> and \<^verbatim>\<open>delete\<close> on the entry list.\<close>

definition map_get :: "(string \<times> StoredObject) list \<Rightarrow> string \<Rightarrow> StoredObject option" where
  "map_get m k = map_of m k"

definition map_set :: "string \<Rightarrow> StoredObject \<Rightarrow> (string \<times> StoredObject) list \<Rightarrow> (string \<times> StoredObject) list" where
  "map_set k obj m =
     (if k \<in> fst ` set m then map (\<lambda>e. if fst e = k then (k, obj) else e) m else m @ [(k, obj)])"

definition map_delete :: "string \<Rightarrow> (string \<times> StoredObject) list \<Rightarrow> (string \<times> StoredObject) list" where
  "map_delete k m = filter (\<lambda>e. fst e \<noteq> k) m"

definition defaultConfig :: StorageConfig where
  "defaultConfig = \<lparr> enableReplication = True, replicationFactor = 3, syncInterval = 60000,
     maxStorageSize = 1024, enableEncryption = True, backupInterval = 300000 \<rparr>"

text \<open>The constructor: an empty store and, with replication on, \<open>replicationFactor - 1\<close> nodes.\<close>

definition initializeReplication :: "StorageConfig \<Rightarrow> env \<Rightarrow> ReplicationNode list" where
  "initializeReplication cfg e =
     map (\<lambda>i. \<lparr> node_id = ''replica-'' @ toString 10 (int i) @ ''-'' @ toString 36 (now e),
                address = ''192.168.1.'' @ toString 10 (100 + int i),
                port = 3000 + int i, status = online, lastSync = 0, storageUsed = 0 \<rparr>)
         [0 ..< replicationFactor cfg - 1]"

definition new_storage :: "StorageConfig \<Rightarrow> env \<Rightarrow> storage" where
  "new_storage cfg e =
     \<lparr> store = [],
       replicationNodes = (if enableReplication cfg then initializeReplication cfg e else []),
       sizeTracker = 0 \<rparr>"

section \<open>Operations\<close>

text \<open>\<^verbatim>\<open>Date.now().toString(36) + Math.random().toString(36).substr(2, 5)\<close>\<close>

definition generateId :: "env \<Rightarrow> string" where
  "generateId e = toString 36 (now e) @ take 5 (drop 2 (random36 e))"

text \<open>
  \<^verbatim>\<open>encryptData\<close>: with encryption on, the value is serialised and enciphered, and
  the result is the object \<^verbatim>\<open>{ encrypted, iv }\<close>; when anything in the \<^verbatim>\<open>try\<close> block
  throws, the \<^verbatim>\<open>catch\<close> returns the value itself.
\<close>

definition encryptData :: "platform \<Rightarrow> StorageConfig \<Rightarrow> env \<Rightarrow> jsvalue \<Rightarrow> jsvalue" where
  "encryptData P cfg e data =
     (if \<not> enableEncryption cfg then data
      else case JSON_stringify data of
             None \<Rightarrow> data
           | Some s \<Rightarrow>
               (case aes192_encrypt P s of
                  None \<Rightarrow> data
                | Some encrypted \<Rightarrow>
                    JObj [(''encrypted'', JStr encrypted), (''iv'', JStr (randomBytesHex e))]))"

text \<open>
  The \<^verbatim>\<open>try\<close> block of \<^verbatim>\<open>decryptData\<close>: \<open>Inl\<close> is a throw. An \<^verbatim>\<open>encrypted\<close>
  property that is not a string makes \<^verbatim>\<open>decipher.update(_, 'hex', 'utf8')\<close> throw.
\<close>

fun decipher_parse :: "platform \<Rightarrow> jsvalue \<Rightarrow> js_error + jsvalue" where
  "decipher_parse P (JStr c) =
     (case aes192_decrypt P c of
        None \<Rightarrow> Inl CryptoError
      | Some decrypted \<Rightarrow>
          (case JSON_parse P decrypted of None \<Rightarrow> Inl SyntaxError | Some v \<Rightarrow> Inr v))"
| "decipher_parse P v = Inl TypeError"

definition decryptData_try :: "platform \<Rightarrow> jsvalue \<Rightarrow> js_error + jsvalue" where
  "decryptData_try P encryptedData =
     (if \<not> typeof_object encryptedData then Inr encryptedData
      else case get_property encryptedData ''encrypted'' of
             Inl err \<Rightarrow> Inl err
           | Inr enc \<Rightarrow>
               (if \<not> truthy enc then Inr encryptedData
                else case get_property encryptedData ''iv'' of
                       Inl err \<Rightarrow> Inl err
                     | Inr iv \<Rightarrow>
                         (if \<not> truthy iv then Inr encryptedData else decipher_parse P enc)))"

text \<open>\<^verbatim>\<open>decryptData\<close>: the \<^verbatim>\<open>catch\<close> returns its argument.\<close>

definition decryptData :: "platform \<Rightarrow> StorageConfig \<Rightarrow> jsvalue \<Rightarrow> jsvalue" where
  "decryptData P cfg encryptedData =
     (if \<not> enableEncryption cfg then encryptedData
      else case decryptData_try P encryptedData of
             Inl err \<Rightarrow> encryptedData
           | Inr v \<Rightarrow> v)"

text \<open>
  \<^verbatim>\<open>replicateSet\<close> and \<^verbatim>\<open>replicateDelete\<close> touch the node list only. The time
  stamp written to a node is the clock reading of the call.
\<close>

definition replicateSet :: "StorageConfig \<Rightarrow> env \<Rightarrow> storage \<Rightarrow> storage" where
  "replicateSet cfg e s =
     (if \<not> enableReplication cfg then s
      else s\<lparr> replicationNodes :=
                 map (\<lambda>node. if status node = online
                              then node\<lparr> storageUsed := storageUsed node + 1 / 10, lastSync := now e \<rparr>
                              else node)
                     (replicationNodes s) \<rparr>)"

definition replicateDelete :: "StorageConfig \<Rightarrow> env \<Rightarrow> storage \<Rightarrow> storage" where
  "replicateDelete cfg e s =
     (if \<not> enableReplication cfg then s
      else s\<lparr> replicationNodes :=
                 map (\<lambda>node. if status node = online then node\<lparr> lastSync := now e \<rparr> else node)
                     (replicationNodes s) \<rparr>)"

text \<open>The TTL test of \<^verbatim>\<open>get\<close> and \<^verbatim>\<open>performCleanup\<close>: \<^verbatim>\<open>obj.ttl && (now - updatedAt) > obj.ttl\<close>.\<close>

definition ttl_elapsed :: "int \<Rightarrow> StoredObject \<Rightarrow> bool" where
  "ttl_elapsed t obj =
     (case ttl obj of None \<Rightarrow> False | Some life \<Rightarrow> life \<noteq> 0 \<and> t - updatedAt obj > life)"

text \<open>\<^verbatim>\<open>JSON.stringify(v).length / 1024\<close>; \<open>None\<close> when reading \<^verbatim>\<open>length\<close> of \<^verbatim>\<open>undefined\<close> throws.\<close>

definition sizeInKB :: "jsvalue \<Rightarrow> rat option" where
  "sizeInKB v = map_option (\<lambda>serializedValue. of_nat (length serializedValue) / 1024) (JSON_stringify v)"

text \<open>
  The \<^verbatim>\<open>while\<close> loop of \<^verbatim>\<open>performCleanup\<close> over the sorted snapshot \<open>entries\<close>.
  \<open>Inl\<close> is a throw; it carries the fields as they are at that point.
\<close>

fun evict_loop :: "StorageConfig \<Rightarrow> (string \<times> StoredObject) list \<Rightarrow> storage \<Rightarrow> (js_error \<times> storage) + storage" where
  "evict_loop cfg [] s = Inr s"
| "evict_loop cfg (entry # entries) s =
     (if sizeTracker s > maxStorageSize cfg * (9 / 10) * 1024 then
        (case sizeInKB (obj_value (snd entry)) of
           None \<Rightarrow> Inl (TypeError, s)
         | Some sz \<Rightarrow>
             evict_loop cfg entries
               (s\<lparr> sizeTracker := max 0 (sizeTracker s - sz),
                   store := map_delete (fst entry) (store s) \<rparr>))
      else Inr s)"

definition performCleanup :: "StorageConfig \<Rightarrow> int \<Rightarrow> storage \<Rightarrow> (js_error \<times> storage) + storage" where
  "performCleanup cfg t s =
     (let keysToRemove = map fst (filter (\<lambda>entry. ttl_elapsed t (snd entry)) (store s));
          s1 = s\<lparr> store := fold map_delete keysToRemove (store s) \<rparr>
      in if sizeTracker s1 > maxStorageSize cfg * 1024
         then evict_loop cfg (sort_key (\<lambda>entry. createdAt (snd entry)) (store s1)) s1
         else Inr s1)"

text \<open>The \<^verbatim>\<open>options\<close> argument of \<^verbatim>\<open>set\<close>; an omitted argument has both fields absent.\<close>

record set_options =
  opt_tags :: "string list option"
  opt_ttl :: "int option"

text \<open>
  The first step of \<^verbatim>\<open>set\<close>, for a value of size \<open>sz\<close>:
  \<^verbatim>\<open>if ((this.sizeTracker + sizeInKB) > (this.config.maxStorageSize * 1024)) this.performCleanup()\<close>.
\<close>

definition cleanup_phase :: "StorageConfig \<Rightarrow> env \<Rightarrow> rat \<Rightarrow> storage \<Rightarrow> (js_error \<times> storage) + storage" where
  "cleanup_phase cfg e sz s =
     (if sizeTracker s + sz > maxStorageSize cfg * 1024 then performCleanup cfg (now e) s else Inr s)"

text \<open>
  \<^verbatim>\<open>set\<close>. The result is the boolean the promise resolves to, with the fields after
  the call. Every throw inside the \<^verbatim>\<open>try\<close> block ends in \<^verbatim>\<open>return false\<close>.
\<close>

definition ps_set :: "platform \<Rightarrow> StorageConfig \<Rightarrow> env \<Rightarrow> string \<Rightarrow> jsvalue \<Rightarrow> set_options \<Rightarrow> storage \<Rightarrow> bool \<times> storage" where
  "ps_set P cfg e key v options s =
     (case sizeInKB v of
        None \<Rightarrow> (False, s)
      | Some sz \<Rightarrow>
          (case cleanup_phase cfg e sz s of
             Inl (err, s1) \<Rightarrow> (False, s1)
           | Inr s1 \<Rightarrow>
               (let existing = map_get (store s1) key;
                    obj = \<lparr> obj_id = (case existing of
                                        None \<Rightarrow> generateId e
                                      | Some ex \<Rightarrow> if obj_id ex \<noteq> [] then obj_id ex else generateId e),
                            obj_key = key,
                            obj_value = encryptData P cfg e v,
                            createdAt = (case existing of None \<Rightarrow> now e | Some ex \<Rightarrow> createdAt ex),
                            updatedAt = now e,
                            version = (case existing of None \<Rightarrow> 1 | Some ex \<Rightarrow> version ex + 1),
                            tags = (case opt_tags options of None \<Rightarrow> [] | Some ts \<Rightarrow> ts),
                            ttl = opt_ttl options \<rparr>;
                    s2 = s1\<lparr> store := map_set key obj (store s1),
                             sizeTracker := sizeTracker s1 + sz \<rparr>;
                    s3 = (if enableReplication cfg then replicateSet cfg e s2 else s2)
                in (True, s3))))"

text \<open>
  \<^verbatim>\<open>delete\<close>: \<open>Inr b\<close> is the boolean the promise resolves to, \<open>Inl\<close> a rejection
  (the store is then untouched, the throw coming before \<^verbatim>\<open>this.store.delete\<close>).
\<close>

definition ps_delete :: "StorageConfig \<Rightarrow> env \<Rightarrow> string \<Rightarrow> storage \<Rightarrow> (js_error + bool) \<times> storage" where
  "ps_delete cfg e key s =
     (case map_get (store s) key of
        None \<Rightarrow> (Inr False, s)
      | Some obj \<Rightarrow>
          (case sizeInKB (obj_value obj) of
             None \<Rightarrow> (Inl TypeError, s)
           | Some sz \<Rightarrow>
               (let s1 = s\<lparr> sizeTracker := max 0 (sizeTracker s - sz),
                            store := map_delete key (store s) \<rparr>;
                    s2 = (if enableReplication cfg then replicateDelete cfg e s1 else s1)
                in (Inr True, s2))))"

text \<open>
  \<^verbatim>\<open>get\<close>: the value returned (\<^verbatim>\<open>undefined\<close> for a key that is absent or expired)
  with the fields after the call. The promise of the inner \<^verbatim>\<open>this.delete(key)\<close> is
  dropped, so a rejection of it is not seen by the caller.
\<close>

definition ps_get :: "platform \<Rightarrow> StorageConfig \<Rightarrow> env \<Rightarrow> string \<Rightarrow> storage \<Rightarrow> jsvalue \<times> storage" where
  "ps_get P cfg e key s =
     (case map_get (store s) key of
        None \<Rightarrow> (JUndefined, s)
      | Some obj \<Rightarrow>
          if ttl_elapsed (now e) obj then (JUndefined, snd (ps_delete cfg e key s))
          else (decryptData P cfg (obj_value obj), s))"

text \<open>\<^verbatim>\<open>findByTag\<close>: the values, in the order of the \<^verbatim>\<open>Map\<close>.\<close>

definition findByTag :: "platform \<Rightarrow> StorageConfig \<Rightarrow> string \<Rightarrow> storage \<Rightarrow> jsvalue list" where
  "findByTag P cfg tag s =
     map (\<lambda>obj. decryptData P cfg (obj_value obj))
         (filter (\<lambda>obj. tag \<in> set (tags obj)) (map snd (store s)))"

section \<open>Notions used in the statements\<close>

text \<open>The fields that make up the local store, the node list left out.\<close>

definition local_state :: "storage \<Rightarrow> (string \<times> StoredObject) list \<times> rat" where
  "local_state s = (store s, sizeTracker s)"

text \<open>The sum, in KB, of the serialised sizes of the values now in the store.\<close>

definition stored_size :: "storage \<Rightarrow> rat" where
  "stored_size s =
     sum_list (map (\<lambda>entry. case sizeInKB (obj_value (snd entry)) of None \<Rightarrow> 0 | Some sz \<Rightarrow> sz) (store s))"

text \<open>Every value in the store is one that \<^verbatim>\<open>JSON.stringify\<close> turns into text.\<close>

definition all_serializable :: "storage \<Rightarrow> bool" where
  "all_serializable s = list_all (\<lambda>entry. JSON_stringify (obj_value (snd entry)) \<noteq> None) (store s)"

text \<open>
  What holds of every store that the constructor and the operations produce: one entry
  per key, values that serialise, and ids that are not empty.
\<close>

definition well_formed :: "storage \<Rightarrow> bool" where
  "well_formed s =
     (distinct (map fst (store s)) \<and> all_serializable s \<and>
      list_all (\<lambda>entry. obj_id (snd entry) \<noteq> []) (store s))"

text \<open>
  For the cleanup: the entries whose TTL has not run out at time \<open>t\<close>, a list of entries
  put in ascending order of \<^verbatim>\<open>createdAt\<close>, and the size counter after the sizes of a
  list of entries have been taken off one after the other.
\<close>

definition live_entries :: "int \<Rightarrow> storage \<Rightarrow> (string \<times> StoredObject) list" where
  "live_entries t s = filter (\<lambda>entry. \<not> ttl_elapsed t (snd entry)) (store s)"

definition oldest_first :: "(string \<times> StoredObject) list \<Rightarrow> (string \<times> StoredObject) list" where
  "oldest_first es = sort_key (\<lambda>entry. createdAt (snd entry)) es"

definition counter_after :: "rat \<Rightarrow> (string \<times> StoredObject) list \<Rightarrow> rat" where
  "counter_after tr es =
     foldl (\<lambda>tr entry. case sizeInKB (obj_value (snd entry)) of None \<Rightarrow> tr | Some sz \<Rightarrow> max 0 (tr - sz)) tr es"

text \<open>
  A value that JSON represents without loss: \<^verbatim>\<open>JSON.stringify\<close> turns it into text
  and \<^verbatim>\<open>JSON.parse\<close> of that text is the value again.
\<close>

definition json_faithful :: "platform \<Rightarrow> jsvalue \<Rightarrow> bool" where
  "json_faithful P v = (case JSON_stringify v of None \<Rightarrow> False | Some plain \<Rightarrow> JSON_parse P plain = Some v)"

text \<open>
  The cipher works on a plain text: the ciphertext is not empty and deciphers to the
  plain text; or \<^verbatim>\<open>createCipher\<close> is missing and then so is \<^verbatim>\<open>createDecipher\<close>.
\<close>

definition cipher_inverts :: "platform \<Rightarrow> string \<Rightarrow> bool" where
  "cipher_inverts P plain =
     (case aes192_encrypt P plain of
        None \<Rightarrow> (\<forall>c. aes192_decrypt P c = None)
      | Some c \<Rightarrow> c \<noteq> [] \<and> aes192_decrypt P c = Some plain)"

section \<open>Reference runtimes for the worked examples\<close>

text \<open>
  The theorems below hold for every \<open>platform\<close>. The worked examples need a concrete
  one. \<open>JSON_parse_ref\<close> reads JSON text whose value the model covers (no fractions
  or exponents, no \<^verbatim>\<open>\u\<close> escape above \<^verbatim>\<open>00ff\<close>, no property name that is
  an array index); it is a recursive descent with a fuel of twice the length of the text,
  two steps per character being the most that the descent takes.
\<close>

definition is_ws :: "char \<Rightarrow> bool" where
  "is_ws c = (c = CHR 0x20 \<or> c = CHR 0x09 \<or> c = CHR 0x0A \<or> c = CHR 0x0D)"

definition skip_ws :: "string \<Rightarrow> string" where
  "skip_ws cs = dropWhile is_ws cs"

definition hex_value :: "char \<Rightarrow> int option" where
  "hex_value c = map_of (zip ''0123456789abcdefABCDEF'' (map int ([0 ..< 16] @ [10 ..< 16]))) c"

definition is_digit :: "char \<Rightarrow> bool" where
  "is_digit c = (c \<in> set ''0123456789'')"

definition digits_value :: "string \<Rightarrow> int" where
  "digits_value ds = foldl (\<lambda>acc c. 10 * acc + (of_char c - 48)) 0 ds"

definition unescape :: "string \<Rightarrow> (char \<times> string) option" where
  "unescape cs =
     (case cs of
        [] \<Rightarrow> None
      | c # r \<Rightarrow>
          if c = CHR 0x22 \<or> c = CHR 0x5C \<or> c = CHR ''/'' then Some (c, r)
          else if c = CHR ''b'' then Some (CHR 0x08, r)
          else if c = CHR ''f'' then Some (CHR 0x0C, r)
          else if c = CHR ''n'' then Some (CHR 0x0A, r)
          else if c = CHR ''r'' then Some (CHR 0x0D, r)
          else if c = CHR ''t'' then Some (CHR 0x09, r)
          else if c = CHR ''u'' \<and> take 2 r = ''00'' then
            (case map hex_value (take 2 (drop 2 r)) of
               [Some h, Some l] \<Rightarrow> Some (char_of (16 * h + l), drop 4 r)
             | _ \<Rightarrow> None)
          else None)"

fun parse_chars :: "nat \<Rightarrow> string \<Rightarrow> (string \<times> string) option" where
  "parse_chars 0 cs = None"
| "parse_chars (Suc n) [] = None"
| "parse_chars (Suc n) (c # r) =
     (if c = CHR 0x22 then Some ([], r)
      else if c = CHR 0x5C then
        (case unescape r of
           None \<Rightarrow> None
         | Some (ch, r') \<Rightarrow> map_option (\<lambda>p. (ch # fst p, snd p)) (parse_chars n r'))
      else if (of_char c :: int) < 32 then None
      else map_option (\<lambda>p. (c # fst p, snd p)) (parse_chars n r))"

definition parse_number :: "string \<Rightarrow> (jsvalue \<times> string) option" where
  "parse_number cs =
     (let neg = (take 1 cs = ''-'');
          body = (if neg then drop 1 cs else cs);
          ds = takeWhile is_digit body;
          r = dropWhile is_digit body
      in if ds = [] \<or> (length ds > 1 \<and> hd ds = CHR ''0'') then None
         else if r \<noteq> [] \<and> hd r \<in> set ''.eE'' then None
         else Some (JNum (if neg then - digits_value ds else digits_value ds), r))"

definition is_index_name :: "string \<Rightarrow> bool" where
  "is_index_name k = (k \<noteq> [] \<and> list_all is_digit k \<and> (length k = 1 \<or> hd k \<noteq> CHR ''0''))"

definition put_property :: "string \<Rightarrow> jsvalue \<Rightarrow> (string \<times> jsvalue) list \<Rightarrow> (string \<times> jsvalue) list" where
  "put_property k v ps =
     (if k \<in> fst ` set ps then map (\<lambda>p. if fst p = k then (k, v) else p) ps else ps @ [(k, v)])"

fun parse_value :: "nat \<Rightarrow> string \<Rightarrow> (jsvalue \<times> string) option"
  and parse_elements :: "nat \<Rightarrow> jsvalue list \<Rightarrow> string \<Rightarrow> (jsvalue \<times> string) option"
  and parse_members :: "nat \<Rightarrow> (string \<times> jsvalue) list \<Rightarrow> string \<Rightarrow> (jsvalue \<times> string) option"
where
  "parse_value 0 cs = None"
| "parse_value (Suc n) cs =
     (if take 1 cs = [CHR 0x22] then
        map_option (\<lambda>p. (JStr (fst p), snd p)) (parse_chars (length cs) (drop 1 cs))
      else if take 1 cs = ''['' then
        (if take 1 (skip_ws (drop 1 cs)) = '']'' then Some (JArr [], drop 1 (skip_ws (drop 1 cs)))
         else parse_elements n [] (skip_ws (drop 1 cs)))
      else if take 1 cs = ''{'' then
        (if take 1 (skip_ws (drop 1 cs)) = ''}'' then Some (JObj [], drop 1 (skip_ws (drop 1 cs)))
         else parse_members n [] (skip_ws (drop 1 cs)))
      else if take 4 cs = ''null'' then Some (JNull, drop 4 cs)
      else if take 4 cs = ''true'' then Some (JBool True, drop 4 cs)
      else if take 5 cs = ''false'' then Some (JBool False, drop 5 cs)
      else parse_number cs)"
| "parse_elements 0 acc cs = None"
| "parse_elements (Suc n) acc cs =
     (case parse_value n cs of
        None \<Rightarrow> None
      | Some (v, r) \<Rightarrow>
          if take 1 (skip_ws r) = '','' then parse_elements n (acc @ [v]) (skip_ws (drop 1 (skip_ws r)))
          else if take 1 (skip_ws r) = '']'' then Some (JArr (acc @ [v]), drop 1 (skip_ws r))
          else None)"
| "parse_members 0 acc cs = None"
| "parse_members (Suc n) acc cs =
     (if take 1 cs \<noteq> [CHR 0x22] then None
      else case parse_chars (length cs) (drop 1 cs) of
        None \<Rightarrow> None
      | Some (k, r) \<Rightarrow>
          if is_index_name k \<or> take 1 (skip_ws r) \<noteq> '':'' then None
          else (case parse_value n (skip_ws (drop 1 (skip_ws r))) of
                  None \<Rightarrow> None
                | Some (v, r') \<Rightarrow>
                    if take 1 (skip_ws r') = '','' then
                      parse_members n (put_property k v acc) (skip_ws (drop 1 (skip_ws r')))
                    else if take 1 (skip_ws r') = ''}'' then
                      Some (JObj (put_property k v acc), drop 1 (skip_ws r'))
                    else None))"

definition JSON_parse_ref :: "string \<Rightarrow> jsvalue option" where
  "JSON_parse_ref text =
     (case parse_value (2 * length text + 2) (skip_ws text) of
        None \<Rightarrow> None
      | Some (v, r) \<Rightarrow> if skip_ws r = [] then Some v else None)"

text \<open>
  A stand-in for the block cipher, with the interface of \<^verbatim>\<open>createCipher\<close> and
  \<^verbatim>\<open>createDecipher\<close>: the text is reversed, closed by one padding byte and written
  in hex. Deciphering throws on text that is not hex or that lacks the padding byte.
\<close>

definition hex_encode :: "string \<Rightarrow> string" where
  "hex_encode bs =
     concat (map (\<lambda>c. [digit_char (of_char c div 16), digit_char (of_char c mod 16)]) bs)"

fun hex_decode :: "string \<Rightarrow> string option" where
  "hex_decode [] = Some []"
| "hex_decode [c] = None"
| "hex_decode (a # b # cs) =
     (case (hex_value a, hex_value b, hex_decode cs) of
        (Some h, Some l, Some bs) \<Rightarrow> Some (char_of (16 * h + l) # bs)
      | _ \<Rightarrow> None)"

definition standin_encrypt :: "string \<Rightarrow> string option" where
  "standin_encrypt s = Some (hex_encode (rev s @ [CHR 0x01]))"

definition standin_decrypt :: "string \<Rightarrow> string option" where
  "standin_decrypt c =
     (case hex_decode c of
        None \<Rightarrow> None
      | Some bs \<Rightarrow> if bs \<noteq> [] \<and> last bs = CHR 0x01 then Some (rev (butlast bs)) else None)"

text \<open>
  \<open>node_with_cipher\<close>: a runtime in which \<^verbatim>\<open>crypto.createCipher\<close> exists.
  \<open>node_without_cipher\<close>: a runtime from which \<^verbatim>\<open>crypto.createCipher\<close> and
  \<^verbatim>\<open>createDecipher\<close> have been removed, so that both calls throw.
\<close>

definition node_with_cipher :: platform where
  "node_with_cipher = \<lparr> aes192_encrypt = standin_encrypt, aes192_decrypt = standin_decrypt,
     JSON_parse = JSON_parse_ref \<rparr>"

definition node_without_cipher :: platform where
  "node_without_cipher = \<lparr> aes192_encrypt = (\<lambda>s. None), aes192_decrypt = (\<lambda>c. None),
     JSON_parse = JSON_parse_ref \<rparr>"

section \<open>Configurations and inputs of the worked examples\<close>

definition plainConfig :: StorageConfig where
  "plainConfig = defaultConfig\<lparr> enableEncryption := False \<rparr>"

text \<open>The surroundings of a call made \<open>t\<close> milliseconds after 2023-11-14T22:13:20Z.\<close>

definition at_time :: "int \<Rightarrow> env" where
  "at_time t = \<lparr> now = 1700000000000 + t, random36 = ''0.4fzyo82mvyr'',
     randomBytesHex = ''000102030405060708090a0b0c0d0e0f'' \<rparr>"

definition no_options :: set_options where
  "no_options = \<lparr> opt_tags = None, opt_ttl = None \<rparr>"

definition ttl_options :: "int \<Rightarrow> set_options" where
  "ttl_options life = \<lparr> opt_tags = None, opt_ttl = Some life \<rparr>"

text \<open>A store holding the key \<^verbatim>\<open>k\<close>, written at time 5000 with a TTL of 1000 ms.\<close>

definition storage_with_ttl :: storage where
  "storage_with_ttl =
     snd (ps_set node_with_cipher defaultConfig (at_time 5000) ''k'' (JStr ''v'') (ttl_options 1000)
            (new_storage defaultConfig (at_time 0)))"

text \<open>The same write in the runtime without the cipher: the value is stored as it is.\<close>

definition storage_unencrypted :: storage where
  "storage_unencrypted =
     snd (ps_set node_without_cipher defaultConfig (at_time 5000) ''k'' (JStr ''v'') (ttl_options 1000)
            (new_storage defaultConfig (at_time 0)))"

text \<open>The same fields with every peer marked offline.\<close>

definition peers_offline :: "storage \<Rightarrow> storage" where
  "peers_offline s = s\<lparr> replicationNodes := map (\<lambda>node. node\<lparr> status := offline \<rparr>) (replicationNodes s) \<rparr>"

text \<open>A budget of 16 characters: \<open>maxStorageSize * 1024\<close> is 1/64 KB.\<close>

definition tinyConfig :: StorageConfig where
  "tinyConfig = plainConfig\<lparr> maxStorageSize := 1 / 65536 \<rparr>"

text \<open>One key written at time 1000 under \<open>tinyConfig\<close>, with a value of 22 characters.\<close>

definition storage_over_budget :: storage where
  "storage_over_budget =
     snd (ps_set node_with_cipher tinyConfig (at_time 1000) ''k'' (JStr ''aaaaaaaaaaaaaaaaaaaa'') no_options
            (new_storage tinyConfig (at_time 0)))"

text \<open>The key \<^verbatim>\<open>k\<close> written twice, then deleted and written again.\<close>

definition storage_written_twice :: storage where
  "storage_written_twice =
     snd (ps_set node_with_cipher defaultConfig (at_time 2000) ''k'' (JStr ''b'') no_options
       (snd (ps_set node_with_cipher defaultConfig (at_time 1000) ''k'' (JStr ''a'') no_options
          (new_storage defaultConfig (at_time 0)))))"

definition storage_rewritten :: storage where
  "storage_rewritten =
     snd (ps_set node_with_cipher defaultConfig (at_time 4000) ''k'' (JStr ''c'') no_options
       (snd (ps_delete defaultConfig (at_time 3000) ''k'' storage_written_twice)))"

text \<open>The same two writes with encryption off.\<close>

definition storage_plain_twice :: storage where
  "storage_plain_twice =
     snd (ps_set node_with_cipher plainConfig (at_time 2000) ''k'' (JStr ''x'') no_options
       (snd (ps_set node_with_cipher plainConfig (at_time 1000) ''k'' (JStr ''x'') no_options
          (new_storage plainConfig (at_time 0)))))"

text \<open>A tagged object with a TTL of 1000 ms, written at time 5000.\<close>

definition tagged_options :: set_options where
  "tagged_options = \<lparr> opt_tags = Some [''t''], opt_ttl = Some 1000 \<rparr>"

definition storage_tagged :: storage where
  "storage_tagged =
     snd (ps_set node_with_cipher defaultConfig (at_time 5000) ''k'' (JStr ''v'') tagged_options
            (new_storage defaultConfig (at_time 0)))"

text \<open>The stored value of one key replaced, as by a fault of the medium.\<close>

definition with_stored_value :: "string \<Rightarrow> jsvalue \<Rightarrow> storage \<Rightarrow> storage" where
  "with_stored_value k v s =
     s\<lparr> store := map (\<lambda>entry. if fst entry = k then (k, (snd entry)\<lparr> obj_value := v \<rparr>) else entry) (store s) \<rparr>"

text \<open>
  \<open>storage_with_ttl\<close> holds the ciphertext \<^verbatim>\<open>22762201\<close>; here its last bit is flipped.
\<close>

definition storage_tampered :: storage where
  "storage_tampered =
     with_stored_value ''k''
       (JObj [(''encrypted'', JStr ''22762200''), (''iv'', JStr ''000102030405060708090a0b0c0d0e0f'')])
       storage_with_ttl"

text \<open>The same ciphertext cut short, so that it deciphers to text that is not JSON.\<close>

definition storage_garbled :: storage where
  "storage_garbled =
     with_stored_value ''k''
       (JObj [(''encrypted'', JStr ''227601''), (''iv'', JStr ''000102030405060708090a0b0c0d0e0f'')])
       storage_with_ttl"

text \<open>The array \<^verbatim>\<open>[undefined]\<close> written with encryption on.\<close>

definition storage_lossy :: storage where
  "storage_lossy =
     snd (ps_set node_with_cipher defaultConfig (at_time 5000) ''k'' (JArr [JUndefined]) no_options
            (new_storage defaultConfig (at_time 0)))"

text \<open>
  Under \<open>tinyConfig\<close>: \<^verbatim>\<open>a\<close> (12 characters, TTL 100 ms) written at time 1000 and
  \<^verbatim>\<open>b\<close> (7 characters, no TTL) written at time 1100.
\<close>

definition storage_expired_and_live :: storage where
  "storage_expired_and_live =
     snd (ps_set node_with_cipher tinyConfig (at_time 1100) ''b'' (JStr ''bbbbb'') no_options
       (snd (ps_set node_with_cipher tinyConfig (at_time 1000) ''a'' (JStr ''aaaaaaaaaa'') (ttl_options 100)
          (new_storage tinyConfig (at_time 0)))))"

section \<open>Facts about the entry list and the replication steps\<close>

lemma map_of_replace:
  "map_of (map (\<lambda>e. if fst e = k then (k, obj) else e) m) k' =
     (if k' = k \<and> k \<in> fst ` set m then Some obj else map_of m k')"
  by (induction m) (fastforce simp: image_iff)+

lemma map_get_map_set: "map_get (map_set k obj m) k' = (if k' = k then Some obj else map_get m k')"
proof (cases "k \<in> fst ` set m")
  case True
  then show ?thesis by (simp add: map_get_def map_set_def map_of_replace)
next
  case False
  then have "map_of m k = None" by (simp add: map_of_eq_None_iff)
  with False show ?thesis by (auto simp: map_get_def map_set_def map_add_def split: option.splits)
qed

lemma map_get_map_delete: "map_get (map_delete k m) k' = (if k' = k then None else map_get m k')"
  by (induction m) (auto simp: map_get_def map_delete_def)

lemma keys_map_delete: "map fst (map_delete k m) = filter (\<lambda>x. x \<noteq> k) (map fst m)"
  by (induction m) (auto simp: map_delete_def)

lemma keys_map_set:
  "map fst (map_set k obj m) = (if k \<in> set (map fst m) then map fst m else map fst m @ [k])"
  by (induction m) (auto simp: map_set_def)

lemma store_replicateSet [simp]: "store (replicateSet cfg e s) = store s"
  by (simp add: replicateSet_def)

lemma sizeTracker_replicateSet [simp]: "sizeTracker (replicateSet cfg e s) = sizeTracker s"
  by (simp add: replicateSet_def)

lemma store_replicateDelete [simp]: "store (replicateDelete cfg e s) = store s"
  by (simp add: replicateDelete_def)

lemma sizeTracker_replicateDelete [simp]: "sizeTracker (replicateDelete cfg e s) = sizeTracker s"
  by (simp add: replicateDelete_def)

lemma store_ps_delete:
  "store (snd (ps_delete cfg e key s)) =
     (case map_get (store s) key of
        None \<Rightarrow> store s
      | Some obj \<Rightarrow>
          (case sizeInKB (obj_value obj) of None \<Rightarrow> store s | Some sz \<Rightarrow> map_delete key (store s)))"
  by (simp add: ps_delete_def Let_def split: option.splits)

section \<open>Facts about the cleanup and about a successful \<^verbatim>\<open>set\<close>\<close>

lemma all_serializable_iff:
  "all_serializable s \<longleftrightarrow> (\<forall>entry \<in> set (store s). sizeInKB (obj_value (snd entry)) \<noteq> None)"
  by (simp add: all_serializable_def list_all_iff sizeInKB_def)

lemma evict_loop_no_throw:
  "\<forall>entry \<in> set es. sizeInKB (obj_value (snd entry)) \<noteq> None \<Longrightarrow> \<exists>s'. evict_loop cfg es s = Inr s'"
  by (induction es arbitrary: s) auto

lemma fold_map_delete: "fold map_delete ks m = filter (\<lambda>entry. fst entry \<notin> set ks) m"
proof (induction ks arbitrary: m)
  case Nil
  then show ?case by simp
next
  case (Cons k ks)
  have "filter (\<lambda>entry. fst entry \<notin> set ks) (filter (\<lambda>entry. fst entry \<noteq> k) m) =
        filter (\<lambda>entry. fst entry \<notin> set (k # ks)) m"
    by (induction m) auto
  with Cons show ?case by (simp add: map_delete_def)
qed

lemma set_fold_map_delete: "set (fold map_delete ks m) \<subseteq> set m"
  by (auto simp: fold_map_delete)

lemma performCleanup_no_throw:
  assumes "all_serializable s"
  shows "\<exists>s'. performCleanup cfg t s = Inr s'"
proof -
  let ?m = "fold map_delete (map fst (filter (\<lambda>entry. ttl_elapsed t (snd entry)) (store s))) (store s)"
  have "\<forall>entry \<in> set (sort_key (\<lambda>entry. createdAt (snd entry)) ?m). sizeInKB (obj_value (snd entry)) \<noteq> None"
    using assms set_fold_map_delete [of _ "store s"] by (auto simp: all_serializable_iff)
  from evict_loop_no_throw [OF this] show ?thesis
    by (simp add: performCleanup_def Let_def)
qed

lemma cleanup_phase_no_throw:
  "all_serializable s \<Longrightarrow> \<exists>s'. cleanup_phase cfg e sz s = Inr s'"
  using performCleanup_no_throw [of s cfg "now e"] by (simp add: cleanup_phase_def)

lemma map_get_fold_map_delete:
  "map_get (fold map_delete ks m) k = (if k \<in> set ks then None else map_get m k)"
  by (induction ks arbitrary: m) (auto simp: map_get_map_delete)

lemma evict_loop_submap:
  "map_get (store (case evict_loop cfg es s of Inl (err, t) \<Rightarrow> t | Inr t \<Rightarrow> t)) k = Some obj
     \<Longrightarrow> map_get (store s) k = Some obj"
proof (induction es arbitrary: s)
  case Nil
  then show ?case by simp
next
  case (Cons entry es)
  show ?case
  proof (cases "sizeTracker s > maxStorageSize cfg * (9 / 10) * 1024")
    case False
    with Cons.prems show ?thesis by simp
  next
    case True
    show ?thesis
    proof (cases "sizeInKB (obj_value (snd entry))")
      case None
      with True Cons.prems show ?thesis by simp
    next
      case (Some sz)
      with True Cons.prems Cons.IH [of "s\<lparr> sizeTracker := max 0 (sizeTracker s - sz),
                   store := map_delete (fst entry) (store s) \<rparr>"]
      show ?thesis by (simp add: map_get_map_delete split: if_splits)
    qed
  qed
qed

lemma performCleanup_submap:
  "map_get (store (case performCleanup cfg t s of Inl (err, t) \<Rightarrow> t | Inr t \<Rightarrow> t)) k = Some obj
     \<Longrightarrow> map_get (store s) k = Some obj"
proof -
  assume a: "map_get (store (case performCleanup cfg t s of Inl (err, t) \<Rightarrow> t | Inr t \<Rightarrow> t)) k = Some obj"
  let ?s1 = "s\<lparr> store := fold map_delete (map fst (filter (\<lambda>entry. ttl_elapsed t (snd entry)) (store s))) (store s) \<rparr>"
  have "map_get (store ?s1) k = Some obj"
  proof (cases "sizeTracker s > maxStorageSize cfg * 1024")
    case True
    with a evict_loop_submap [of cfg _ ?s1 k obj] show ?thesis
      by (simp add: performCleanup_def Let_def)
  next
    case False
    with a show ?thesis by (simp add: performCleanup_def Let_def)
  qed
  then show ?thesis by (simp add: map_get_fold_map_delete split: if_splits)
qed

lemma ps_set_success:
  assumes "sizeInKB v = Some sz" and "cleanup_phase cfg e sz s = Inr s1"
  shows "ps_set P cfg e key v options s =
     (True, (if enableReplication cfg then replicateSet cfg e else id)
        (s1\<lparr> store := map_set key
               \<lparr> obj_id = (case map_get (store s1) key of
                             None \<Rightarrow> generateId e
                           | Some ex \<Rightarrow> if obj_id ex \<noteq> [] then obj_id ex else generateId e),
                 obj_key = key,
                 obj_value = encryptData P cfg e v,
                 createdAt = (case map_get (store s1) key of None \<Rightarrow> now e | Some ex \<Rightarrow> createdAt ex),
                 updatedAt = now e,
                 version = (case map_get (store s1) key of None \<Rightarrow> 1 | Some ex \<Rightarrow> version ex + 1),
                 tags = (case opt_tags options of None \<Rightarrow> [] | Some ts \<Rightarrow> ts),
                 ttl = opt_ttl options \<rparr> (store s1),
             sizeTracker := sizeTracker s1 + sz \<rparr>))"
  using assms by (simp add: ps_set_def Let_def)

lemma cleanup_phase_submap:
  "cleanup_phase cfg e sz s = Inr s1 \<Longrightarrow> map_get (store s1) k = Some obj \<Longrightarrow> map_get (store s) k = Some obj"
  using performCleanup_submap [of cfg "now e" s k obj]
  by (auto simp: cleanup_phase_def split: if_splits)

lemma cleanup_phase_not_needed:
  "sizeTracker s + sz \<le> maxStorageSize cfg * 1024 \<Longrightarrow> cleanup_phase cfg e sz s = Inr s"
  by (simp add: cleanup_phase_def)

lemma store_after_set:
  assumes "sizeInKB v = Some sz" and "cleanup_phase cfg e sz s = Inr s1"
  shows "map_get (store (snd (ps_set P cfg e key v options s))) k =
     (if k = key then
        Some \<lparr> obj_id = (case map_get (store s1) key of
                             None \<Rightarrow> generateId e
                           | Some ex \<Rightarrow> if obj_id ex \<noteq> [] then obj_id ex else generateId e),
                 obj_key = key,
                 obj_value = encryptData P cfg e v,
                 createdAt = (case map_get (store s1) key of None \<Rightarrow> now e | Some ex \<Rightarrow> createdAt ex),
                 updatedAt = now e,
                 version = (case map_get (store s1) key of None \<Rightarrow> 1 | Some ex \<Rightarrow> version ex + 1),
                 tags = (case opt_tags options of None \<Rightarrow> [] | Some ts \<Rightarrow> ts),
                 ttl = opt_ttl options \<rparr>
      else map_get (store s1) k)"
  by (simp add: ps_set_success [OF assms] map_get_map_set)

lemma fst_set_success:
  "sizeInKB v = Some sz \<Longrightarrow> cleanup_phase cfg e sz s = Inr s1 \<Longrightarrow> fst (ps_set P cfg e key v options s) = True"
  by (simp add: ps_set_success)

lemma sizeTracker_after_set:
  "sizeInKB v = Some sz \<Longrightarrow> cleanup_phase cfg e sz s = Inr s1 \<Longrightarrow>
   sizeTracker (snd (ps_set P cfg e key v options s)) = sizeTracker s1 + sz"
  by (simp add: ps_set_success)

lemma store_after_get_submap:
  "map_get (store (snd (ps_get P cfg e k s))) k' = Some obj \<Longrightarrow> map_get (store s) k' = Some obj"
  by (auto simp: ps_get_def store_ps_delete map_get_map_delete split: option.splits if_splits)

lemma store_after_delete_submap:
  "map_get (store (snd (ps_delete cfg e k s))) k' = Some obj \<Longrightarrow> map_get (store s) k' = Some obj"
  by (auto simp: store_ps_delete map_get_map_delete split: option.splits if_splits)

section \<open>Stores that the operations produce\<close>

text \<open>
  The statements below that speak of a store with one entry per key, of values that
  serialise or of ids that are not empty speak of every store that the constructor and
  the operations produce: these properties hold of the new store and are kept by
  \<^verbatim>\<open>set\<close>, \<^verbatim>\<open>get\<close> and \<^verbatim>\<open>delete\<close>.
\<close>

lemma digits_not_empty: "digits radix n \<noteq> []"
  by (subst digits.simps) simp

lemma generateId_not_empty: "generateId e \<noteq> []"
  by (simp add: generateId_def toString_def digits_not_empty)

lemma well_formed_filter:
  "well_formed s \<Longrightarrow> store s' = filter Q (store s) \<Longrightarrow> well_formed s'"
  by (auto simp: well_formed_def all_serializable_def distinct_map_filter list_all_iff)

lemma evict_loop_filter:
  "\<exists>Q. store (case evict_loop cfg es s of Inl (err, s') \<Rightarrow> s' | Inr s' \<Rightarrow> s') = filter Q (store s)"
proof (induction es arbitrary: s)
  case Nil
  have "store s = filter (\<lambda>e. True) (store s)" by simp
  then show ?case by (auto intro: exI [of _ "\<lambda>e. True"])
next
  case (Cons entry es)
  have triv: "store s = filter (\<lambda>e. True) (store s)" by simp
  show ?case
  proof (cases "sizeTracker s > maxStorageSize cfg * (9 / 10) * 1024")
    case False
    with triv show ?thesis by (auto intro: exI [of _ "\<lambda>e. True"])
  next
    case True
    show ?thesis
    proof (cases "sizeInKB (obj_value (snd entry))")
      case None
      with True triv show ?thesis by (auto intro: exI [of _ "\<lambda>e. True"])
    next
      case (Some sz)
      let ?s2 = "s\<lparr> sizeTracker := max 0 (sizeTracker s - sz), store := map_delete (fst entry) (store s) \<rparr>"
      from Cons.IH [of ?s2] obtain Q where
        "store (case evict_loop cfg es ?s2 of Inl (err, s') \<Rightarrow> s' | Inr s' \<Rightarrow> s') = filter Q (store ?s2)"
        by blast
      with True Some have "store (case evict_loop cfg (entry # es) s of Inl (err, s') \<Rightarrow> s' | Inr s' \<Rightarrow> s')
          = filter (\<lambda>e. fst e \<noteq> fst entry \<and> Q e) (store s)"
        by (simp add: map_delete_def)
      then show ?thesis by blast
    qed
  qed
qed

lemma performCleanup_filter:
  "\<exists>Q. store (case performCleanup cfg t s of Inl (err, s') \<Rightarrow> s' | Inr s' \<Rightarrow> s') = filter Q (store s)"
proof -
  let ?ks = "map fst (filter (\<lambda>entry. ttl_elapsed t (snd entry)) (store s))"
  let ?s1 = "s\<lparr> store := fold map_delete ?ks (store s) \<rparr>"
  have s1: "store ?s1 = filter (\<lambda>entry. fst entry \<notin> set ?ks) (store s)"
    by (simp add: fold_map_delete)
  show ?thesis
  proof (cases "sizeTracker s > maxStorageSize cfg * 1024")
    case False
    with s1 show ?thesis
      by (auto simp: performCleanup_def Let_def simp del: set_map)
  next
    case True
    from evict_loop_filter [of cfg "sort_key (\<lambda>entry. createdAt (snd entry)) (store ?s1)" ?s1]
    obtain Q where "store (case evict_loop cfg (sort_key (\<lambda>entry. createdAt (snd entry)) (store ?s1)) ?s1
        of Inl (err, s') \<Rightarrow> s' | Inr s' \<Rightarrow> s') = filter Q (store ?s1)"
      by blast
    with True have "store (case performCleanup cfg t s of Inl (err, s') \<Rightarrow> s' | Inr s' \<Rightarrow> s')
        = filter (\<lambda>entry. fst entry \<notin> set ?ks \<and> Q entry) (store s)"
      unfolding s1 by (simp add: performCleanup_def Let_def fold_map_delete)
    then show ?thesis by blast
  qed
qed

lemma well_formed_cleanup_phase:
  assumes "well_formed s"
  shows "well_formed (case cleanup_phase cfg e sz s of Inl (err, s') \<Rightarrow> s' | Inr s' \<Rightarrow> s')"
proof (cases "sizeTracker s + sz > maxStorageSize cfg * 1024")
  case True
  from performCleanup_filter [of cfg "now e" s] obtain Q where
    "store (case performCleanup cfg (now e) s of Inl (err, s') \<Rightarrow> s' | Inr s' \<Rightarrow> s') = filter Q (store s)"
    by blast
  with assms True show ?thesis
    by (auto simp: cleanup_phase_def intro: well_formed_filter)
next
  case False
  with assms show ?thesis by (simp add: cleanup_phase_def)
qed

lemma well_formed_new_storage: "well_formed (new_storage cfg e)"
  by (simp add: well_formed_def new_storage_def all_serializable_def)

lemma encryptData_serializable:
  "JSON_stringify v \<noteq> None \<Longrightarrow> JSON_stringify (encryptData P cfg e v) \<noteq> None"
  by (auto simp: encryptData_def split: option.splits)

lemma well_formed_map_set:
  assumes "well_formed s" and "JSON_stringify (obj_value obj) \<noteq> None" and "obj_id obj \<noteq> []"
    and "store s' = map_set k obj (store s)"
  shows "well_formed s'"
proof -
  have "set (store s') \<subseteq> insert (k, obj) (set (store s))"
    using assms(4) by (auto simp: map_set_def)
  moreover have "distinct (map fst (store s'))"
    using assms(1,4) by (auto simp: well_formed_def keys_map_set)
  ultimately show ?thesis
    using assms(1-3) by (auto simp: well_formed_def all_serializable_def list_all_iff)
qed

lemma well_formed_set:
  assumes "well_formed s"
  shows "well_formed (snd (ps_set P cfg e key v options s))"
proof (cases "sizeInKB v")
  case None
  with assms show ?thesis by (simp add: ps_set_def)
next
  case (Some sz)
  then have ser: "JSON_stringify v \<noteq> None" by (auto simp: sizeInKB_def)
  note wf = well_formed_cleanup_phase [OF assms, of cfg e sz]
  show ?thesis
  proof (cases "cleanup_phase cfg e sz s")
    case (Inl a)
    with Some wf show ?thesis by (cases a) (simp add: ps_set_def)
  next
    case (Inr s1)
    with wf have wf1: "well_formed s1" by simp
    let ?obj = "\<lparr> obj_id = (case map_get (store s1) key of
                             None \<Rightarrow> generateId e
                           | Some ex \<Rightarrow> if obj_id ex \<noteq> [] then obj_id ex else generateId e),
                 obj_key = key,
                 obj_value = encryptData P cfg e v,
                 createdAt = (case map_get (store s1) key of None \<Rightarrow> now e | Some ex \<Rightarrow> createdAt ex),
                 updatedAt = now e,
                 version = (case map_get (store s1) key of None \<Rightarrow> 1 | Some ex \<Rightarrow> version ex + 1),
                 tags = (case opt_tags options of None \<Rightarrow> [] | Some ts \<Rightarrow> ts),
                 ttl = opt_ttl options \<rparr>"
    have a: "obj_id ?obj \<noteq> []"
      by (auto simp: generateId_not_empty split: option.splits)
    have b: "JSON_stringify (obj_value ?obj) \<noteq> None"
      using ser by (simp add: encryptData_serializable)
    have c: "store (snd (ps_set P cfg e key v options s)) = map_set key ?obj (store s1)"
      by (simp add: ps_set_success [OF Some Inr])
    from well_formed_map_set [OF wf1 b a c] show ?thesis .
  qed
qed

lemma well_formed_delete:
  "well_formed s \<Longrightarrow> well_formed (snd (ps_delete cfg e key s))"
  by (rule well_formed_filter [where Q = "\<lambda>entry. fst entry \<noteq> key \<or>
        (case map_get (store s) key of None \<Rightarrow> True | Some obj \<Rightarrow> sizeInKB (obj_value obj) = None)"])
     (auto simp: store_ps_delete map_delete_def split: option.splits)

lemma well_formed_get:
  "well_formed s \<Longrightarrow> well_formed (snd (ps_get P cfg e key s))"
  by (auto simp: ps_get_def well_formed_delete split: option.splits)

section \<open>C1: \<^verbatim>\<open>set\<close> followed by \<^verbatim>\<open>get\<close>\<close>

lemma decryptData_try_plain:
  "\<not> typeof_object v \<Longrightarrow> decryptData_try P v = Inr v"
  by (simp add: decryptData_try_def)

lemma decryptData_encrypted_object:
  "c \<noteq> [] \<Longrightarrow> iv \<noteq> [] \<Longrightarrow>
   decryptData_try P (JObj [(''encrypted'', JStr c), (''iv'', JStr iv)]) =
     (case aes192_decrypt P c of
        None \<Rightarrow> Inl CryptoError
      | Some decrypted \<Rightarrow> (case JSON_parse P decrypted of None \<Rightarrow> Inl SyntaxError | Some v \<Rightarrow> Inr v))"
  by (simp add: decryptData_try_def)

lemma decryptData_no_decipher:
  assumes "\<forall>c. aes192_decrypt P c = None"
  shows "decryptData P cfg v = v"
proof -
  have "decipher_parse P enc = Inl CryptoError \<or> decipher_parse P enc = Inl TypeError" for enc
    using assms by (cases enc) auto
  then have "decryptData_try P v = Inr v \<or> (\<exists>err. decryptData_try P v = Inl err)"
    by (auto simp: decryptData_try_def split: sum.splits)
  then show ?thesis by (auto simp: decryptData_def)
qed

lemma decrypt_encrypt:
  assumes "JSON_stringify v = Some plain" and "JSON_parse P plain = Some v"
    and "cipher_inverts P plain" and "randomBytesHex e \<noteq> []"
  shows "decryptData P cfg (encryptData P cfg e v) = v"
proof (cases "enableEncryption cfg")
  case False
  then show ?thesis by (simp add: decryptData_def encryptData_def)
next
  case True
  show ?thesis
  proof (cases "aes192_encrypt P plain")
    case None
    with assms have "\<forall>c. aes192_decrypt P c = None" by (simp add: cipher_inverts_def)
    from decryptData_no_decipher [OF this] have "decryptData P cfg v = v" .
    with True None assms show ?thesis by (simp add: encryptData_def)
  next
    case (Some c)
    with assms have c: "c \<noteq> []" "aes192_decrypt P c = Some plain" by (simp_all add: cipher_inverts_def)
    from True Some assms have "encryptData P cfg e v = JObj [(''encrypted'', JStr c), (''iv'', JStr (randomBytesHex e))]"
      by (simp add: encryptData_def)
    with True c assms show ?thesis
      by (simp add: decryptData_def decryptData_encrypted_object)
  qed
qed


text \<open>
  C1, as the specification states it, is about every value that can be stored. With
  encryption on, what
  \<^verbatim>\<open>get\<close> returns is \<^verbatim>\<open>JSON.parse\<close> of the deciphered text: the array
  \<^verbatim>\<open>[undefined]\<close> is accepted by \<^verbatim>\<open>set\<close>, serialised as \<^verbatim>\<open>[null]\<close>, and read back
  as \<^verbatim>\<open>[null]\<close>.
\<close>

theorem lossy_value_counterexample:
  "fst (ps_set node_with_cipher defaultConfig (at_time 5000) ''k'' (JArr [JUndefined]) no_options
          (new_storage defaultConfig (at_time 0))) = True \<and>
   fst (ps_get node_with_cipher defaultConfig (at_time 5000) ''k'' storage_lossy) = JArr [JNull] \<and>
   fst (ps_get node_with_cipher defaultConfig (at_time 5000) ''k'' storage_lossy) \<noteq> JArr [JUndefined]"
  by code_simp

text \<open>
  C1 as amended: after a \<^verbatim>\<open>set\<close> that resolves to \<^verbatim>\<open>true\<close>, a \<^verbatim>\<open>get\<close> of the same
  key on the resulting store, at a time at which the TTL given to \<^verbatim>\<open>set\<close> has not run
  out, returns the value and changes nothing, provided that, when encryption is on,
  the value is one that JSON represents without loss, the decipher inverts the cipher on
  its serialisation (or both are missing, the value then being stored as it is), and
  the random \<^verbatim>\<open>iv\<close> text is not empty. With encryption off it holds for every value.
\<close>

theorem set_get_round_trip:
  assumes "ps_set P cfg e key v options s = (True, s')"
    and "opt_ttl options = None \<or> opt_ttl options = Some 0 \<or>
         (\<exists>life. opt_ttl options = Some life \<and> now e' - now e \<le> life)"
    and "enableEncryption cfg \<longrightarrow> json_faithful P v \<and> cipher_inverts P (the (JSON_stringify v)) \<and> randomBytesHex e \<noteq> []"
  shows "ps_get P cfg e' key s' = (v, s')"
proof -
  from assms(1) obtain sz where sz: "sizeInKB v = Some sz"
    by (cases "sizeInKB v") (auto simp: ps_set_def)
  from assms(1) sz obtain s1 where s1: "cleanup_phase cfg e sz s = Inr s1"
    by (cases "cleanup_phase cfg e sz s") (auto simp: ps_set_def)
  from assms(1) have s': "s' = snd (ps_set P cfg e key v options s)" by simp
  let ?obj = "\<lparr> obj_id = (case map_get (store s1) key of
                             None \<Rightarrow> generateId e
                           | Some ex \<Rightarrow> if obj_id ex \<noteq> [] then obj_id ex else generateId e),
                 obj_key = key,
                 obj_value = encryptData P cfg e v,
                 createdAt = (case map_get (store s1) key of None \<Rightarrow> now e | Some ex \<Rightarrow> createdAt ex),
                 updatedAt = now e,
                 version = (case map_get (store s1) key of None \<Rightarrow> 1 | Some ex \<Rightarrow> version ex + 1),
                 tags = (case opt_tags options of None \<Rightarrow> [] | Some ts \<Rightarrow> ts),
                 ttl = opt_ttl options \<rparr>"
  have got: "map_get (store s') key = Some ?obj"
    unfolding s' by (simp add: store_after_set [OF sz s1])
  have fresh: "\<not> ttl_elapsed (now e') ?obj"
    using assms(2) by (auto simp: ttl_elapsed_def)
  have "decryptData P cfg (encryptData P cfg e v) = v"
  proof (cases "enableEncryption cfg")
    case False
    then show ?thesis by (simp add: decryptData_def encryptData_def)
  next
    case True
    with assms(3) obtain plain where "JSON_stringify v = Some plain" "JSON_parse P plain = Some v"
      "cipher_inverts P plain" "randomBytesHex e \<noteq> []"
      by (auto simp: json_faithful_def split: option.splits)
    then show ?thesis by (rule decrypt_encrypt)
  qed
  with got fresh show ?thesis by (simp add: ps_get_def)
qed


theorem set_get_round_trip_witness:
  "ps_set node_with_cipher defaultConfig (at_time 5000) ''k'' (JStr ''v'') (ttl_options 1000)
     (new_storage defaultConfig (at_time 0)) = (True, storage_with_ttl) \<and>
   opt_ttl (ttl_options 1000) = Some 1000 \<and> now (at_time 6000) - now (at_time 5000) \<le> 1000 \<and>
   enableEncryption defaultConfig \<and> json_faithful node_with_cipher (JStr ''v'') \<and>
   cipher_inverts node_with_cipher (the (JSON_stringify (JStr ''v''))) \<and>
   randomBytesHex (at_time 5000) \<noteq> [] \<and>
   map_option obj_value (map_get (store storage_with_ttl) ''k'') =
     Some (JObj [(''encrypted'', JStr ''22762201''), (''iv'', JStr ''000102030405060708090a0b0c0d0e0f'')]) \<and>
   ps_get node_with_cipher defaultConfig (at_time 6000) ''k'' storage_with_ttl = (JStr ''v'', storage_with_ttl) \<and>
   ps_set node_without_cipher defaultConfig (at_time 5000) ''k'' (JStr ''v'') (ttl_options 1000)
     (new_storage defaultConfig (at_time 0)) = (True, storage_unencrypted) \<and>
   json_faithful node_without_cipher (JStr ''v'') \<and>
   cipher_inverts node_without_cipher (the (JSON_stringify (JStr ''v''))) \<and>
   map_option obj_value (map_get (store storage_unencrypted) ''k'') = Some (JStr ''v'') \<and>
   ps_get node_without_cipher defaultConfig (at_time 6000) ''k'' storage_unencrypted
     = (JStr ''v'', storage_unencrypted)"
proof -
  have 1: "ps_set node_with_cipher defaultConfig (at_time 5000) ''k'' (JStr ''v'') (ttl_options 1000)
     (new_storage defaultConfig (at_time 0)) = (True, storage_with_ttl)"
    by code_simp
  have 2: "opt_ttl (ttl_options 1000) = Some 1000" "now (at_time 6000) - now (at_time 5000) \<le> 1000"
    by (simp_all add: ttl_options_def at_time_def)
  have 3: "enableEncryption defaultConfig" "json_faithful node_with_cipher (JStr ''v'')"
    "randomBytesHex (at_time 5000) \<noteq> []"
    by code_simp+
  have enc: "aes192_encrypt node_with_cipher (the (JSON_stringify (JStr ''v''))) = Some ''22762201''"
    by code_simp
  have dec: "aes192_decrypt node_with_cipher ''22762201'' = Some (the (JSON_stringify (JStr ''v'')))"
    by code_simp
  have 4: "cipher_inverts node_with_cipher (the (JSON_stringify (JStr ''v'')))"
    unfolding cipher_inverts_def enc using dec by simp
  have 5: "map_option obj_value (map_get (store storage_with_ttl) ''k'') =
     Some (JObj [(''encrypted'', JStr ''22762201''), (''iv'', JStr ''000102030405060708090a0b0c0d0e0f'')])"
    by code_simp
  from 2 have ttl_ok: "opt_ttl (ttl_options 1000) = None \<or> opt_ttl (ttl_options 1000) = Some 0 \<or>
         (\<exists>life. opt_ttl (ttl_options 1000) = Some life \<and> now (at_time 6000) - now (at_time 5000) \<le> life)"
    by simp
  from 3 4 have enc_ok: "enableEncryption defaultConfig \<longrightarrow> json_faithful node_with_cipher (JStr ''v'') \<and>
      cipher_inverts node_with_cipher (the (JSON_stringify (JStr ''v''))) \<and> randomBytesHex (at_time 5000) \<noteq> []"
    by simp
  have 6: "ps_set node_without_cipher defaultConfig (at_time 5000) ''k'' (JStr ''v'') (ttl_options 1000)
     (new_storage defaultConfig (at_time 0)) = (True, storage_unencrypted)"
    by code_simp
  have 7: "json_faithful node_without_cipher (JStr ''v'')"
    by code_simp
  have 8: "cipher_inverts node_without_cipher (the (JSON_stringify (JStr ''v'')))"
    by (simp add: cipher_inverts_def node_without_cipher_def)
  have 9: "map_option obj_value (map_get (store storage_unencrypted) ''k'') = Some (JStr ''v'')"
    by code_simp
  from 3 7 8 have raw_ok: "enableEncryption defaultConfig \<longrightarrow> json_faithful node_without_cipher (JStr ''v'') \<and>
      cipher_inverts node_without_cipher (the (JSON_stringify (JStr ''v''))) \<and> randomBytesHex (at_time 5000) \<noteq> []"
    by simp
  from set_get_round_trip [OF 1 ttl_ok enc_ok] set_get_round_trip [OF 6 ttl_ok raw_ok]
    1 2 3 4 5 6 7 8 9 show ?thesis by simp
qed

section \<open>C2: the storage limit\<close>

text \<open>
  C2, as the specification states it, has \<^verbatim>\<open>put\<close> fail with \<^verbatim>\<open>CapacityExceeded\<close>,
  the store untouched, when the projected size is above the limit after eviction. The code
  has no such failure: with a budget of 16 characters, a \<^verbatim>\<open>set\<close> of 22 characters on the
  empty store runs the cleanup, which finds nothing to remove, and then inserts the
  object and resolves to \<^verbatim>\<open>true\<close>, the size counter ending above the limit.
\<close>

theorem set_above_limit_counterexample:
  "sizeInKB (JStr ''aaaaaaaaaaaaaaaaaaaa'') = Some (22 / 1024) \<and>
   maxStorageSize tinyConfig * 1024 = 16 / 1024 \<and>
   cleanup_phase tinyConfig (at_time 1000) (22 / 1024) (new_storage tinyConfig (at_time 0))
     = Inr (new_storage tinyConfig (at_time 0)) \<and>
   sizeTracker (new_storage tinyConfig (at_time 0)) + 22 / 1024 > maxStorageSize tinyConfig * 1024 \<and>
   fst (ps_set node_with_cipher tinyConfig (at_time 1000) ''k'' (JStr ''aaaaaaaaaaaaaaaaaaaa'') no_options
          (new_storage tinyConfig (at_time 0))) = True \<and>
   map_get (store (new_storage tinyConfig (at_time 0))) ''k'' = None \<and>
   map_option obj_value (map_get (store storage_over_budget) ''k'') = Some (JStr ''aaaaaaaaaaaaaaaaaaaa'') \<and>
   sizeTracker storage_over_budget = 22 / 1024 \<and>
   sizeTracker storage_over_budget > maxStorageSize tinyConfig * 1024"
  by code_simp

text \<open>
  C2 as amended: \<^verbatim>\<open>set\<close> never fails for lack of room. On a store whose values all
  serialise (as every value written by \<^verbatim>\<open>set\<close> does), \<^verbatim>\<open>set\<close> of a value that
  serialises resolves to \<^verbatim>\<open>true\<close>, the key then holds the new value, and the size
  counter is the counter left by the cleanup (run first when the projected size is above
  the limit) plus the size of the value, whether or not that is above the limit. \<^verbatim>\<open>set\<close>
  resolves to \<^verbatim>\<open>false\<close> for a value that \<^verbatim>\<open>JSON.stringify\<close> does not turn into
  text, and then the fields are as they were.
\<close>

theorem set_never_rejects_for_capacity:
  assumes "all_serializable s"
  shows "(sizeInKB v = None \<longrightarrow> ps_set P cfg e key v options s = (False, s)) \<and>
         (sizeInKB v \<noteq> None \<longrightarrow>
            fst (ps_set P cfg e key v options s) = True \<and>
            map_option obj_value (map_get (store (snd (ps_set P cfg e key v options s))) key)
              = Some (encryptData P cfg e v) \<and>
            (\<exists>s1. cleanup_phase cfg e (the (sizeInKB v)) s = Inr s1 \<and>
               sizeTracker (snd (ps_set P cfg e key v options s)) = sizeTracker s1 + the (sizeInKB v)))"
proof (cases "sizeInKB v")
  case None
  then show ?thesis by (simp add: ps_set_def)
next
  case (Some sz)
  from cleanup_phase_no_throw [OF assms] obtain s1 where s1: "cleanup_phase cfg e sz s = Inr s1"
    by blast
  from Some s1 show ?thesis
    by (simp add: fst_set_success store_after_set sizeTracker_after_set)
qed


theorem set_never_rejects_for_capacity_witness:
  "all_serializable storage_over_budget \<and>
   sizeInKB JUndefined = None \<and>
   ps_set node_with_cipher tinyConfig (at_time 2000) ''j'' JUndefined no_options storage_over_budget
     = (False, storage_over_budget) \<and>
   sizeInKB (JStr ''aaaaaaaaaaaaaaaaaaaa'') \<noteq> None \<and>
   all_serializable (new_storage tinyConfig (at_time 0)) \<and>
   fst (ps_set node_with_cipher tinyConfig (at_time 1000) ''k'' (JStr ''aaaaaaaaaaaaaaaaaaaa'') no_options
          (new_storage tinyConfig (at_time 0))) = True \<and>
   map_option obj_value (map_get (store (snd (ps_set node_with_cipher tinyConfig (at_time 1000) ''k''
          (JStr ''aaaaaaaaaaaaaaaaaaaa'') no_options (new_storage tinyConfig (at_time 0))))) ''k'')
     = Some (encryptData node_with_cipher tinyConfig (at_time 1000) (JStr ''aaaaaaaaaaaaaaaaaaaa''))"
proof -
  have a: "all_serializable storage_over_budget"
    by code_simp
  have b: "all_serializable (new_storage tinyConfig (at_time 0))"
    by code_simp
  have n: "sizeInKB JUndefined = None"
    by code_simp
  have y: "sizeInKB (JStr ''aaaaaaaaaaaaaaaaaaaa'') \<noteq> None"
    by code_simp
  from set_never_rejects_for_capacity [OF a, of JUndefined node_with_cipher tinyConfig "at_time 2000"
      "''j''" no_options] n
  have 1: "ps_set node_with_cipher tinyConfig (at_time 2000) ''j'' JUndefined no_options storage_over_budget
     = (False, storage_over_budget)"
    by blast
  from set_never_rejects_for_capacity [OF b, of "JStr ''aaaaaaaaaaaaaaaaaaaa''" node_with_cipher tinyConfig
      "at_time 1000" "''k''" no_options] y
  have 2: "fst (ps_set node_with_cipher tinyConfig (at_time 1000) ''k'' (JStr ''aaaaaaaaaaaaaaaaaaaa'')
      no_options (new_storage tinyConfig (at_time 0))) = True \<and>
    map_option obj_value (map_get (store (snd (ps_set node_with_cipher tinyConfig (at_time 1000) ''k''
          (JStr ''aaaaaaaaaaaaaaaaaaaa'') no_options (new_storage tinyConfig (at_time 0))))) ''k'')
     = Some (encryptData node_with_cipher tinyConfig (at_time 1000) (JStr ''aaaaaaaaaaaaaaaaaaaa''))"
    by blast
  from a b n y 1 2 show ?thesis by blast
qed

section \<open>C3: a stored value that does not decipher\<close>

text \<open>
  C3, as the specification states it, has \<^verbatim>\<open>get\<close> fail with a \<^verbatim>\<open>DecryptionError\<close>
  when the stored ciphertext has been corrupted. \<^verbatim>\<open>get\<close> has no failing outcome: the
  \<^verbatim>\<open>catch\<close> of \<^verbatim>\<open>decryptData\<close> returns its argument. With the last bit of the
  ciphertext flipped, deciphering throws and \<^verbatim>\<open>get\<close> returns the stored
  \<^verbatim>\<open>{ encrypted, iv }\<close> object itself.
\<close>

theorem tampered_ciphertext_counterexample:
  "fst (ps_get node_with_cipher defaultConfig (at_time 5500) ''k'' storage_with_ttl) = JStr ''v'' \<and>
   map_option obj_value (map_get (store storage_with_ttl) ''k'') =
     Some (JObj [(''encrypted'', JStr ''22762201''), (''iv'', JStr ''000102030405060708090a0b0c0d0e0f'')]) \<and>
   map_option obj_value (map_get (store storage_tampered) ''k'') =
     Some (JObj [(''encrypted'', JStr ''22762200''), (''iv'', JStr ''000102030405060708090a0b0c0d0e0f'')]) \<and>
   decryptData_try node_with_cipher
     (JObj [(''encrypted'', JStr ''22762200''), (''iv'', JStr ''000102030405060708090a0b0c0d0e0f'')])
     = Inl CryptoError \<and>
   ps_get node_with_cipher defaultConfig (at_time 5500) ''k'' storage_tampered =
     (JObj [(''encrypted'', JStr ''22762200''), (''iv'', JStr ''000102030405060708090a0b0c0d0e0f'')],
      storage_tampered)"
  by code_simp

text \<open>
  C3 as amended: \<^verbatim>\<open>get\<close> never fails with a decryption error. When deciphering or
  parsing the stored value of a key that has not expired throws, \<^verbatim>\<open>get\<close> returns the
  stored value as it is and leaves the store unchanged.
\<close>

theorem get_returns_stored_value_when_decryption_throws:
  "map_get (store s) key = Some obj \<and> \<not> ttl_elapsed (now e) obj \<and> enableEncryption cfg \<and>
   decryptData_try P (obj_value obj) = Inl err
     \<longrightarrow> ps_get P cfg e key s = (obj_value obj, s)"
  by (simp add: ps_get_def decryptData_def)


theorem get_returns_stored_value_when_decryption_throws_witness:
  "(\<exists>obj. map_get (store storage_garbled) ''k'' = Some obj \<and> \<not> ttl_elapsed (now (at_time 5500)) obj \<and>
      decryptData_try node_with_cipher (obj_value obj) = Inl SyntaxError \<and>
      ps_get node_with_cipher defaultConfig (at_time 5500) ''k'' storage_garbled = (obj_value obj, storage_garbled)) \<and>
   enableEncryption defaultConfig"
proof -
  define obj where "obj = the (map_get (store storage_garbled) ''k'')"
  have 1: "map_get (store storage_garbled) ''k'' = Some obj"
    unfolding obj_def by code_simp
  have 2: "\<not> ttl_elapsed (now (at_time 5500)) obj"
    unfolding obj_def by code_simp
  have 3: "enableEncryption defaultConfig"
    by code_simp
  have 4: "decryptData_try node_with_cipher (obj_value obj) = Inl SyntaxError"
    unfolding obj_def by code_simp
  from get_returns_stored_value_when_decryption_throws [of storage_garbled "''k''" obj "at_time 5500"
      defaultConfig node_with_cipher SyntaxError] 1 2 3 4
  have "ps_get node_with_cipher defaultConfig (at_time 5500) ''k'' storage_garbled = (obj_value obj, storage_garbled)"
    by blast
  with 1 2 3 4 show ?thesis by blast
qed

section \<open>C4: reads and the time-to-live\<close>

text \<open>
  C4, as the specification states it, counts an object as expired from the moment
  \<open>now - updatedAt = ttl\<close>. The code tests \<^verbatim>\<open>(now - updatedAt) > obj.ttl\<close>: an object
  written with a TTL of 1000 ms is still returned by a \<^verbatim>\<open>get\<close> exactly 1000 ms later.
\<close>

theorem get_at_ttl_boundary_counterexample:
  "map_get (store storage_with_ttl) ''k'' \<noteq> None \<and>
   fst (ps_get node_with_cipher defaultConfig (at_time 6000) ''k'' storage_with_ttl) = JStr ''v'' \<and>
   fst (ps_get node_with_cipher defaultConfig (at_time 6000) ''k'' storage_with_ttl) \<noteq> JUndefined"
  by code_simp

text \<open>
  C4 as amended: \<^verbatim>\<open>get\<close> returns \<^verbatim>\<open>undefined\<close> for an absent key, and for a key
  whose object has a non-zero TTL with \<open>now - updatedAt\<close> strictly greater than it; the
  expired object is then removed from the store by the read (its value being one that
  \<^verbatim>\<open>JSON.stringify\<close> accepts, as every value written by \<^verbatim>\<open>set\<close> is). With no TTL, a
  TTL of 0, or \<open>now - updatedAt\<close> at most the TTL (the boundary included), the object
  is not expired: its value is returned and nothing changes.
\<close>

theorem get_ttl_strict:
  "(map_get (store s) key = None \<longrightarrow> ps_get P cfg e key s = (JUndefined, s)) \<and>
   (map_get (store s) key = Some obj \<and> ttl obj = Some life \<and> life \<noteq> 0 \<and> now e - updatedAt obj > life
      \<longrightarrow> fst (ps_get P cfg e key s) = JUndefined \<and>
          (JSON_stringify (obj_value obj) \<noteq> None \<longrightarrow>
             store (snd (ps_get P cfg e key s)) = map_delete key (store s) \<and>
             map_get (store (snd (ps_get P cfg e key s))) key = None)) \<and>
   (map_get (store s) key = Some obj \<and>
      (ttl obj = None \<or> ttl obj = Some 0 \<or> (\<exists>life. ttl obj = Some life \<and> now e - updatedAt obj \<le> life))
      \<longrightarrow> ps_get P cfg e key s = (decryptData P cfg (obj_value obj), s))"
  by (auto simp: ps_get_def ttl_elapsed_def store_ps_delete sizeInKB_def map_get_map_delete
           split: option.splits)

theorem get_ttl_strict_witness:
  "map_get (store (new_storage defaultConfig (at_time 0))) ''k'' = None \<and>
   ps_get node_with_cipher defaultConfig (at_time 6001) ''k'' (new_storage defaultConfig (at_time 0))
     = (JUndefined, new_storage defaultConfig (at_time 0)) \<and>
   (\<exists>obj. map_get (store storage_with_ttl) ''k'' = Some obj \<and> ttl obj = Some 1000 \<and>
      now (at_time 6001) - updatedAt obj > 1000 \<and> JSON_stringify (obj_value obj) \<noteq> None \<and>
      now (at_time 6000) - updatedAt obj \<le> 1000 \<and>
      ps_get node_with_cipher defaultConfig (at_time 6000) ''k'' storage_with_ttl
        = (decryptData node_with_cipher defaultConfig (obj_value obj), storage_with_ttl)) \<and>
   fst (ps_get node_with_cipher defaultConfig (at_time 6001) ''k'' storage_with_ttl) = JUndefined \<and>
   map_get (store (snd (ps_get node_with_cipher defaultConfig (at_time 6001) ''k'' storage_with_ttl))) ''k'' = None"
proof -
  define obj where "obj = the (map_get (store storage_with_ttl) ''k'')"
  have absent: "map_get (store (new_storage defaultConfig (at_time 0))) ''k'' = None"
    by code_simp
  have present: "map_get (store storage_with_ttl) ''k'' = Some obj"
    unfolding obj_def by code_simp
  have life: "ttl obj = Some 1000" "(1000::int) \<noteq> 0"
    unfolding obj_def by code_simp+
  have late: "now (at_time 6001) - updatedAt obj > 1000"
    unfolding obj_def by code_simp
  have edge: "now (at_time 6000) - updatedAt obj \<le> 1000"
    unfolding obj_def by code_simp
  have ser: "JSON_stringify (obj_value obj) \<noteq> None"
    unfolding obj_def by code_simp
  note a = get_ttl_strict [where s = "new_storage defaultConfig (at_time 0)" and key = "''k''"
      and P = node_with_cipher and cfg = defaultConfig and e = "at_time 6001"]
  note b = get_ttl_strict [where s = storage_with_ttl and key = "''k''" and obj = obj and life = 1000
      and P = node_with_cipher and cfg = defaultConfig and e = "at_time 6001"]
  note c = get_ttl_strict [where s = storage_with_ttl and key = "''k''" and obj = obj and life = 1000
      and P = node_with_cipher and cfg = defaultConfig and e = "at_time 6000"]
  from a absent have 1: "ps_get node_with_cipher defaultConfig (at_time 6001) ''k''
      (new_storage defaultConfig (at_time 0)) = (JUndefined, new_storage defaultConfig (at_time 0))"
    by blast
  from b present life late ser
  have 2: "fst (ps_get node_with_cipher defaultConfig (at_time 6001) ''k'' storage_with_ttl) = JUndefined"
    and 3: "map_get (store (snd (ps_get node_with_cipher defaultConfig (at_time 6001) ''k'' storage_with_ttl))) ''k'' = None"
    by blast+
  from c present life edge
  have 4: "ps_get node_with_cipher defaultConfig (at_time 6000) ''k'' storage_with_ttl
        = (decryptData node_with_cipher defaultConfig (obj_value obj), storage_with_ttl)"
    by blast
  from absent 1 present life late ser edge 2 3 4 show ?thesis by blast
qed

section \<open>C5: what the cleanup removes\<close>

lemma expired_keys_removed:
  assumes "distinct (map fst m)"
  shows "fold map_delete (map fst (filter P m)) m = filter (\<lambda>entry. \<not> P entry) m"
proof -
  have "fst entry \<in> set (map fst (filter P m)) \<longleftrightarrow> P entry" if "entry \<in> set m" for entry
  proof
    assume "fst entry \<in> set (map fst (filter P m))"
    then obtain e' where e': "e' \<in> set m" "P e'" "fst e' = fst entry" by auto
    with assms that have "e' = entry"
      by (metis eq_key_imp_eq_value prod.collapse)
    with e' show "P entry" by simp
  next
    assume "P entry"
    with that show "fst entry \<in> set (map fst (filter P m))" by auto
  qed
  then show ?thesis
    unfolding fold_map_delete by (intro filter_cong) auto
qed

lemma map_delete_unique:
  assumes "\<forall>e' \<in> set m. fst e' = fst e \<longrightarrow> e' = e"
  shows "map_delete (fst e) m = filter (\<lambda>e'. e' \<noteq> e) m"
  unfolding map_delete_def using assms by (intro filter_cong) auto

lemma counter_after_Cons:
  "sizeInKB (obj_value (snd e)) = Some sz \<Longrightarrow> counter_after tr (e # es) = counter_after (max 0 (tr - sz)) es"
  by (simp add: counter_after_def)

lemma evict_loop_prefix:
  assumes "\<forall>e \<in> set es. sizeInKB (obj_value (snd e)) \<noteq> None"
    and "\<forall>e \<in> set es. \<forall>e' \<in> set (store s). fst e' = fst e \<longrightarrow> e' = e"
  shows "\<exists>n \<le> length es.
           evict_loop cfg es s =
             Inr (s\<lparr> sizeTracker := counter_after (sizeTracker s) (take n es),
                     store := filter (\<lambda>e. e \<notin> set (take n es)) (store s) \<rparr>) \<and>
           (\<forall>m < n. counter_after (sizeTracker s) (take m es) > maxStorageSize cfg * (9 / 10) * 1024) \<and>
           (n < length es \<longrightarrow> counter_after (sizeTracker s) (take n es) \<le> maxStorageSize cfg * (9 / 10) * 1024)"
  using assms
proof (induction es arbitrary: s)
  case Nil
  then show ?case by (simp add: counter_after_def)
next
  case (Cons e es)
  let ?T = "maxStorageSize cfg * (9 / 10) * 1024"
  show ?case
  proof (cases "sizeTracker s > ?T")
    case False
    then have "evict_loop cfg (e # es) s =
        Inr (s\<lparr> sizeTracker := counter_after (sizeTracker s) (take 0 (e # es)),
                store := filter (\<lambda>e'. e' \<notin> set (take 0 (e # es))) (store s) \<rparr>)"
      by (simp add: counter_after_def)
    moreover from False have "counter_after (sizeTracker s) (take 0 (e # es)) \<le> ?T"
      by (simp add: counter_after_def)
    ultimately show ?thesis by (intro exI [of _ 0]) simp
  next
    case True
    from Cons.prems(1) obtain sz where sz: "sizeInKB (obj_value (snd e)) = Some sz" by auto
    let ?s2 = "s\<lparr> sizeTracker := max 0 (sizeTracker s - sz), store := map_delete (fst e) (store s) \<rparr>"
    have del: "map_delete (fst e) (store s) = filter (\<lambda>e'. e' \<noteq> e) (store s)"
      using Cons.prems(2) by (intro map_delete_unique) simp
    have p1: "\<forall>e \<in> set es. sizeInKB (obj_value (snd e)) \<noteq> None"
      using Cons.prems(1) by simp
    have p2: "\<forall>e \<in> set es. \<forall>e' \<in> set (store ?s2). fst e' = fst e \<longrightarrow> e' = e"
      using Cons.prems(2) by (simp add: del)
    from Cons.IH [OF p1 p2] obtain n where n: "n \<le> length es"
      and res: "evict_loop cfg es ?s2 =
             Inr (?s2\<lparr> sizeTracker := counter_after (sizeTracker ?s2) (take n es),
                     store := filter (\<lambda>e. e \<notin> set (take n es)) (store ?s2) \<rparr>)"
      and above: "\<forall>m < n. counter_after (sizeTracker ?s2) (take m es) > ?T"
      and below: "n < length es \<longrightarrow> counter_after (sizeTracker ?s2) (take n es) \<le> ?T"
      by blast
    have flt: "filter (\<lambda>e'. e' \<notin> set (take n es)) (filter (\<lambda>e'. e' \<noteq> e) (store s)) =
               filter (\<lambda>e'. e' \<notin> set (take (Suc n) (e # es))) (store s)"
      by (induction "store s") auto
    have 1: "evict_loop cfg (e # es) s =
        Inr (s\<lparr> sizeTracker := counter_after (sizeTracker s) (take (Suc n) (e # es)),
                store := filter (\<lambda>e'. e' \<notin> set (take (Suc n) (e # es))) (store s) \<rparr>)"
      using True sz res by (simp add: counter_after_Cons del flt)
    have 2: "counter_after (sizeTracker s) (take m (e # es)) > ?T" if "m < Suc n" for m
    proof (cases m)
      case 0
      with True show ?thesis by (simp add: counter_after_def)
    next
      case (Suc m')
      with that above sz show ?thesis by (simp add: counter_after_Cons)
    qed
    have 3: "Suc n < length (e # es) \<longrightarrow> counter_after (sizeTracker s) (take (Suc n) (e # es)) \<le> ?T"
      using below sz by (simp add: counter_after_Cons)
    from n 1 2 3 show ?thesis by (intro exI [of _ "Suc n"]) simp
  qed
qed


text \<open>
  What \<^verbatim>\<open>performCleanup\<close> does, read on the size counter, for a store with one
  entry per key whose values all serialise. It removes the entries whose TTL has run
  out and leaves the counter as it is. If the counter is above the limit, it takes the
  remaining entries in ascending order of \<^verbatim>\<open>createdAt\<close> and removes the first \<open>n\<close>
  of them, the counter being above 90% of the limit before each removal and at most 90%
  of it afterwards unless nothing is left; no removed entry is newer than one that stays.
\<close>

lemma cleanup_policy_on_counter:
  assumes "distinct (map fst (store s))" and "all_serializable s"
  shows "\<exists>n \<le> length (live_entries t s).
           performCleanup cfg t s =
             Inr (s\<lparr> store := filter (\<lambda>entry. entry \<notin> set (take n (oldest_first (live_entries t s))))
                                  (live_entries t s),
                     sizeTracker := counter_after (sizeTracker s) (take n (oldest_first (live_entries t s))) \<rparr>) \<and>
           (sizeTracker s \<le> maxStorageSize cfg * 1024 \<longrightarrow> n = 0) \<and>
           (\<forall>m < n. counter_after (sizeTracker s) (take m (oldest_first (live_entries t s)))
                       > maxStorageSize cfg * (9 / 10) * 1024) \<and>
           (sizeTracker s > maxStorageSize cfg * 1024 \<and> n < length (live_entries t s) \<longrightarrow>
              counter_after (sizeTracker s) (take n (oldest_first (live_entries t s)))
                \<le> maxStorageSize cfg * (9 / 10) * 1024) \<and>
           (\<forall>removed \<in> set (take n (oldest_first (live_entries t s))).
              \<forall>kept \<in> set (drop n (oldest_first (live_entries t s))).
                createdAt (snd removed) \<le> createdAt (snd kept)) \<and>
           set (filter (\<lambda>entry. entry \<notin> set (take n (oldest_first (live_entries t s)))) (live_entries t s))
             = set (drop n (oldest_first (live_entries t s)))"
proof -
  let ?live = "live_entries t s"
  let ?sorted = "oldest_first ?live"
  let ?s1 = "s\<lparr> store := ?live \<rparr>"
  have dk: "distinct (map fst ?live)"
    using assms(1) by (simp add: live_entries_def distinct_map_filter)
  then have dl: "distinct ?live"
    by (simp add: distinct_map)
  have ds: "distinct ?sorted" and ss: "set ?sorted = set ?live" and ls: "length ?sorted = length ?live"
    using dl by (simp_all add: oldest_first_def)
  have step1: "fold map_delete (map fst (filter (\<lambda>entry. ttl_elapsed t (snd entry)) (store s))) (store s) = ?live"
    using expired_keys_removed [OF assms(1)] by (simp add: live_entries_def)
  have order: "createdAt (snd removed) \<le> createdAt (snd kept)"
    if "removed \<in> set (take n ?sorted)" "kept \<in> set (drop n ?sorted)" for n removed kept
  proof -
    have "sorted (map (\<lambda>entry. createdAt (snd entry)) (take n ?sorted @ drop n ?sorted))"
      by (simp add: oldest_first_def)
    then show ?thesis
      using that unfolding map_append sorted_append by auto
  qed
  have rest: "set (filter (\<lambda>entry. entry \<notin> set (take n ?sorted)) ?live) = set (drop n ?sorted)" for n
  proof -
    have "set ?live = set (take n ?sorted) \<union> set (drop n ?sorted)"
      unfolding ss [symmetric] by (metis append_take_drop_id set_append)
    moreover have "set (take n ?sorted) \<inter> set (drop n ?sorted) = {}"
      using ds by (metis append_take_drop_id distinct_append)
    ultimately show ?thesis by auto
  qed
  show ?thesis
  proof (cases "sizeTracker s > maxStorageSize cfg * 1024")
    case False
    then have "performCleanup cfg t s =
        Inr (s\<lparr> store := filter (\<lambda>entry. entry \<notin> set (take 0 ?sorted)) ?live,
                sizeTracker := counter_after (sizeTracker s) (take 0 ?sorted) \<rparr>)"
      by (simp add: performCleanup_def step1 counter_after_def)
    with False rest [of 0] show ?thesis
      by (intro exI [of _ 0]) simp
  next
    case True
    have p1: "\<forall>e \<in> set ?sorted. sizeInKB (obj_value (snd e)) \<noteq> None"
      using assms(2) unfolding ss by (auto simp: all_serializable_iff live_entries_def)
    have p2: "\<forall>e \<in> set ?sorted. \<forall>e' \<in> set (store ?s1). fst e' = fst e \<longrightarrow> e' = e"
      unfolding ss using dk by (auto simp: eq_key_imp_eq_value intro: prod_eqI)
    from evict_loop_prefix [OF p1 p2, of cfg] obtain n where n: "n \<le> length ?sorted"
      and res: "evict_loop cfg ?sorted ?s1 =
             Inr (?s1\<lparr> sizeTracker := counter_after (sizeTracker ?s1) (take n ?sorted),
                     store := filter (\<lambda>e. e \<notin> set (take n ?sorted)) (store ?s1) \<rparr>)"
      and above: "\<forall>m < n. counter_after (sizeTracker ?s1) (take m ?sorted) > maxStorageSize cfg * (9 / 10) * 1024"
      and below: "n < length ?sorted \<longrightarrow> counter_after (sizeTracker ?s1) (take n ?sorted) \<le> maxStorageSize cfg * (9 / 10) * 1024"
      by blast
    have "performCleanup cfg t s =
        Inr (s\<lparr> store := filter (\<lambda>entry. entry \<notin> set (take n ?sorted)) ?live,
                sizeTracker := counter_after (sizeTracker s) (take n ?sorted) \<rparr>)"
      using True res by (simp add: performCleanup_def step1 oldest_first_def [symmetric])
    with n above below True order [of _ n] rest [of n] show ?thesis
      unfolding ls by (intro exI [of _ n]) simp
  qed
qed


text \<open>
  C5: after the expired entries are gone, older entries are to be evicted only if the
  usage is still above the limit. The first loop of \<^verbatim>\<open>performCleanup\<close> removes the
  expired entries without subtracting their sizes from \<^verbatim>\<open>sizeTracker\<close>, so the test
  \<^verbatim>\<open>this.sizeTracker > limit\<close> that follows still counts them. With a limit of 16
  characters, the expired \<^verbatim>\<open>a\<close> (12 characters) and the live \<^verbatim>\<open>b\<close> (7 characters):
  once \<^verbatim>\<open>a\<close> is removed the store holds 7 characters, yet the counter reads 19 and
  \<^verbatim>\<open>b\<close> is evicted as well, the counter ending at 12 for an empty store.
\<close>

theorem cleanup_evicts_live_entry:
  "map fst (store storage_expired_and_live) = [''a'', ''b''] \<and>
   sizeTracker storage_expired_and_live = 19 / 1024 \<and>
   maxStorageSize tinyConfig * 1024 = 16 / 1024 \<and>
   map_option (ttl_elapsed (now (at_time 5000))) (map_get (store storage_expired_and_live) ''a'') = Some True \<and>
   map_option (ttl_elapsed (now (at_time 5000))) (map_get (store storage_expired_and_live) ''b'') = Some False \<and>
   stored_size (storage_expired_and_live\<lparr> store := map_delete ''a'' (store storage_expired_and_live) \<rparr>) = 7 / 1024 \<and>
   performCleanup tinyConfig (now (at_time 5000)) storage_expired_and_live
     = Inr (storage_expired_and_live\<lparr> store := [], sizeTracker := 12 / 1024 \<rparr>)"
  by code_simp

section \<open>C6: the size counter\<close>

text \<open>
  C6: the size counter is meant to equal the sum of the serialised sizes of the stored
  values. Evaluating the code shows three ways in which it does not. Writing the same
  key twice (encryption off, a value of 3 characters) leaves one object and a counter of
  6/1024. With encryption on, \<^verbatim>\<open>set\<close> adds the size of the plain value and
  \<^verbatim>\<open>delete\<close> subtracts the size of the stored \<^verbatim>\<open>{ encrypted, iv }\<close> object: from a
  counter of 3/1024, a \<^verbatim>\<open>set\<close> then \<^verbatim>\<open>delete\<close> of another key ends at 0. The first
  loop of \<^verbatim>\<open>performCleanup\<close> removes an expired object and leaves the counter as it was.
\<close>

theorem size_counter_drift:
  "sizeTracker storage_plain_twice = 6 / 1024 \<and>
   stored_size storage_plain_twice = 3 / 1024 \<and>
   sizeTracker storage_with_ttl = 3 / 1024 \<and>
   sizeTracker (snd (ps_delete defaultConfig (at_time 5600) ''j''
     (snd (ps_set node_with_cipher defaultConfig (at_time 5500) ''j'' (JStr ''v'') no_options storage_with_ttl)))) = 0 \<and>
   performCleanup defaultConfig (now (at_time 99999)) storage_with_ttl = Inr (storage_with_ttl\<lparr> store := [] \<rparr>) \<and>
   sizeTracker (storage_with_ttl\<lparr> store := [] \<rparr>) = 3 / 1024 \<and>
   stored_size (storage_with_ttl\<lparr> store := [] \<rparr>) = 0"
  by code_simp

section \<open>C7: versions\<close>

text \<open>
  C7, as the specification states it, has the version of a key grow with every
  \<^verbatim>\<open>put\<close> and never decrease. In the code a removed key starts again at version 1:
  the key \<^verbatim>\<open>k\<close>, written twice, has version 2; deleted and written again it has
  version 1. (What \<^verbatim>\<open>set\<close> returns is a boolean, not the version.)
\<close>

theorem version_restarts_counterexample:
  "map_option version (map_get (store storage_written_twice) ''k'') = Some 2 \<and>
   map_option version (map_get (store storage_rewritten) ''k'') = Some 1"
  by code_simp

text \<open>
  C7 as amended: a \<^verbatim>\<open>set\<close> that does not throw resolves to \<^verbatim>\<open>true\<close> and stores
  version \<open>previous + 1\<close> when the key is in the store at the moment the object is built
  (that is, after the cleanup that \<^verbatim>\<open>set\<close> runs first when the projected size is above
  the limit), and version 1 otherwise; it leaves every other key as the cleanup left it,
  and the cleanup only removes objects. \<^verbatim>\<open>get\<close> and \<^verbatim>\<open>delete\<close> never change an
  object that stays in the store. So the version of a key grows by one with each
  \<^verbatim>\<open>set\<close> for as long as the key stays in the store, and starts again at 1 after the
  key has been removed.
\<close>

theorem set_version:
  "(sizeInKB v = Some sz \<and> cleanup_phase cfg e sz s = Inr s1 \<longrightarrow>
      fst (ps_set P cfg e key v options s) = True \<and>
      map_option version (map_get (store (snd (ps_set P cfg e key v options s))) key) =
        Some (case map_get (store s1) key of None \<Rightarrow> 1 | Some ex \<Rightarrow> version ex + 1) \<and>
      (\<forall>k. k \<noteq> key \<longrightarrow> map_get (store (snd (ps_set P cfg e key v options s))) k = map_get (store s1) k) \<and>
      (\<forall>k obj. map_get (store s1) k = Some obj \<longrightarrow> map_get (store s) k = Some obj) \<and>
      (sizeTracker s + sz \<le> maxStorageSize cfg * 1024 \<longrightarrow> s1 = s)) \<and>
   (map_get (store (snd (ps_get P cfg e k s))) k' = Some obj' \<longrightarrow> map_get (store s) k' = Some obj') \<and>
   (map_get (store (snd (ps_delete cfg e k s))) k' = Some obj' \<longrightarrow> map_get (store s) k' = Some obj')"
proof (intro conjI impI allI)
  assume a: "sizeInKB v = Some sz \<and> cleanup_phase cfg e sz s = Inr s1"
  then show "fst (ps_set P cfg e key v options s) = True" by (simp add: fst_set_success)
  from a show "map_option version (map_get (store (snd (ps_set P cfg e key v options s))) key) =
        Some (case map_get (store s1) key of None \<Rightarrow> 1 | Some ex \<Rightarrow> version ex + 1)"
    by (simp add: store_after_set)
  fix k
  from a show "map_get (store (snd (ps_set P cfg e key v options s))) k = map_get (store s1) k" if "k \<noteq> key"
    using that by (simp add: store_after_set)
  fix obj
  from a show "map_get (store s) k = Some obj" if "map_get (store s1) k = Some obj"
    using that cleanup_phase_submap by blast
  from a show "s1 = s" if "sizeTracker s + sz \<le> maxStorageSize cfg * 1024"
    using that by (simp add: cleanup_phase_def)
next
  show "map_get (store s) k' = Some obj'" if "map_get (store (snd (ps_get P cfg e k s))) k' = Some obj'"
    using that by (rule store_after_get_submap)
  show "map_get (store s) k' = Some obj'" if "map_get (store (snd (ps_delete cfg e k s))) k' = Some obj'"
    using that by (rule store_after_delete_submap)
qed


theorem set_version_witness:
  "sizeInKB (JStr ''w'') = Some (3 / 1024) \<and>
   cleanup_phase defaultConfig (at_time 5500) (3 / 1024) storage_with_ttl = Inr storage_with_ttl \<and>
   map_option version (map_get (store storage_with_ttl) ''k'') = Some 1 \<and>
   fst (ps_set node_with_cipher defaultConfig (at_time 5500) ''k'' (JStr ''w'') no_options storage_with_ttl) = True \<and>
   map_option version (map_get (store (snd (ps_set node_with_cipher defaultConfig (at_time 5500) ''k''
      (JStr ''w'') no_options storage_with_ttl))) ''k'') = Some 2 \<and>
   map_get (store (snd (ps_get node_with_cipher defaultConfig (at_time 5500) ''j'' storage_with_ttl))) ''k''
     = map_get (store storage_with_ttl) ''k'' \<and>
   map_get (store (snd (ps_delete defaultConfig (at_time 5500) ''j'' storage_with_ttl))) ''k''
     = map_get (store storage_with_ttl) ''k'' \<and>
   map_get (store storage_with_ttl) ''k'' \<noteq> None"
proof -
  define obj where "obj = the (map_get (store storage_with_ttl) ''k'')"
  have sz: "sizeInKB (JStr ''w'') = Some (3 / 1024)"
    by code_simp
  have cl: "cleanup_phase defaultConfig (at_time 5500) (3 / 1024) storage_with_ttl = Inr storage_with_ttl"
    by code_simp
  have old: "map_get (store storage_with_ttl) ''k'' = Some obj"
    unfolding obj_def by code_simp
  have v1: "version obj = 1"
    unfolding obj_def by code_simp
  have g: "map_get (store (snd (ps_get node_with_cipher defaultConfig (at_time 5500) ''j'' storage_with_ttl))) ''k'' = Some obj"
    unfolding obj_def by code_simp
  have d: "map_get (store (snd (ps_delete defaultConfig (at_time 5500) ''j'' storage_with_ttl))) ''k'' = Some obj"
    unfolding obj_def by code_simp
  note t = set_version [where v = "JStr ''w''" and sz = "3 / 1024" and cfg = defaultConfig
      and e = "at_time 5500" and s = storage_with_ttl and ?s1.0 = storage_with_ttl
      and P = node_with_cipher and key = "''k''" and options = no_options
      and k = "''j''" and k' = "''k''" and obj' = obj]
  from t sz cl have 1: "fst (ps_set node_with_cipher defaultConfig (at_time 5500) ''k'' (JStr ''w'')
      no_options storage_with_ttl) = True"
    by blast
  from t sz cl have "map_option version (map_get (store (snd (ps_set node_with_cipher defaultConfig
      (at_time 5500) ''k'' (JStr ''w'') no_options storage_with_ttl))) ''k'')
      = Some (case map_get (store storage_with_ttl) ''k'' of None \<Rightarrow> 1 | Some ex \<Rightarrow> version ex + 1)"
    by blast
  with old v1 have 2: "map_option version (map_get (store (snd (ps_set node_with_cipher defaultConfig
      (at_time 5500) ''k'' (JStr ''w'') no_options storage_with_ttl))) ''k'') = Some 2"
    by simp
  from t g have 3: "map_get (store storage_with_ttl) ''k'' = Some obj"
    by blast
  from sz cl old v1 1 2 g d 3 show ?thesis by simp
qed

section \<open>C8: \<^verbatim>\<open>findByTag\<close>\<close>

text \<open>
  C8: \<^verbatim>\<open>findByTag\<close> is meant to leave expired objects out. It has no TTL test: for
  an object written at 5000 with a TTL of 1000, which \<^verbatim>\<open>get\<close> at time 99999 treats as
  expired, \<^verbatim>\<open>findByTag\<close> still returns the value, whatever the time.
\<close>

theorem findByTag_returns_expired:
  "map_option (ttl_elapsed (now (at_time 99999))) (map_get (store storage_tagged) ''k'') = Some True \<and>
   fst (ps_get node_with_cipher defaultConfig (at_time 99999) ''k'' storage_tagged) = JUndefined \<and>
   findByTag node_with_cipher defaultConfig ''t'' storage_tagged = [JStr ''v'']"
  by code_simp

section \<open>C9: the result of \<^verbatim>\<open>set\<close> does not depend on the peers\<close>

lemma local_state_eq: "local_state s1 = local_state s2 \<longleftrightarrow> store s1 = store s2 \<and> sizeTracker s1 = sizeTracker s2"
  by (simp add: local_state_def)

lemma evict_loop_local:
  "local_state s1 = local_state s2 \<Longrightarrow>
   map_sum (map_prod id local_state) local_state (evict_loop cfg es s1) =
   map_sum (map_prod id local_state) local_state (evict_loop cfg es s2)"
proof (induction es arbitrary: s1 s2)
  case Nil
  then show ?case by simp
next
  case (Cons entry es)
  show ?case
  proof (cases "sizeInKB (obj_value (snd entry))")
    case None
    with Cons.prems show ?thesis by (simp add: local_state_eq)
  next
    case (Some sz)
    have "local_state (s1\<lparr> sizeTracker := max 0 (sizeTracker s1 - sz), store := map_delete (fst entry) (store s1) \<rparr>)
        = local_state (s2\<lparr> sizeTracker := max 0 (sizeTracker s2 - sz), store := map_delete (fst entry) (store s2) \<rparr>)"
      using Cons.prems by (simp add: local_state_eq)
    from Cons.IH [OF this] Some Cons.prems show ?thesis
      by (simp add: local_state_eq)
  qed
qed

lemma performCleanup_local:
  assumes "local_state s1 = local_state s2"
  shows "map_sum (map_prod id local_state) local_state (performCleanup cfg t s1) =
         map_sum (map_prod id local_state) local_state (performCleanup cfg t s2)"
proof -
  let ?ks = "map fst (filter (\<lambda>entry. ttl_elapsed t (snd entry)) (store s1))"
  have eq: "store s1 = store s2" "sizeTracker s1 = sizeTracker s2"
    using assms by (simp_all add: local_state_eq)
  have "local_state (s1\<lparr> store := fold map_delete ?ks (store s1) \<rparr>) =
        local_state (s2\<lparr> store := fold map_delete ?ks (store s2) \<rparr>)"
    using eq by (simp add: local_state_eq)
  from evict_loop_local [OF this] eq show ?thesis
    by (simp add: performCleanup_def Let_def local_state_eq)
qed

lemma cleanup_phase_local:
  assumes "local_state s1 = local_state s2"
  shows "map_sum (map_prod id local_state) local_state (cleanup_phase cfg e sz s1) =
         map_sum (map_prod id local_state) local_state (cleanup_phase cfg e sz s2)"
  using performCleanup_local [OF assms, of cfg "now e"] assms
  by (simp add: cleanup_phase_def local_state_eq)

text \<open>
  C9: two runs of \<^verbatim>\<open>set\<close> on the same key map and size counter, with any two node
  lists (any peers, any statuses), resolve to the same boolean and leave the same key
  map, hence the same versions, and the same size counter. \<^verbatim>\<open>replicateSet\<close> writes
  to the node list only and does not throw, so nothing of it reaches the caller.
\<close>

theorem set_independent_of_nodes:
  assumes "store s1 = store s2" and "sizeTracker s1 = sizeTracker s2"
  shows "fst (ps_set P cfg e key v options s1) = fst (ps_set P cfg e key v options s2) \<and>
         store (snd (ps_set P cfg e key v options s1)) = store (snd (ps_set P cfg e key v options s2)) \<and>
         sizeTracker (snd (ps_set P cfg e key v options s1)) = sizeTracker (snd (ps_set P cfg e key v options s2))"
proof (cases "sizeInKB v")
  case None
  with assms show ?thesis by (simp add: ps_set_def)
next
  case (Some sz)
  let ?c1 = "cleanup_phase cfg e sz s1"
  let ?c2 = "cleanup_phase cfg e sz s2"
  have loc: "local_state s1 = local_state s2" using assms by (simp add: local_state_eq)
  note c = cleanup_phase_local [OF loc, of cfg e sz]
  show ?thesis
  proof (cases ?c1)
    case (Inl a)
    obtain err t1 where a: "a = (err, t1)" by (cases a)
    from c Inl a obtain t2 where 2: "?c2 = Inl (err, t2)" and "local_state t1 = local_state t2"
      by (cases ?c2) auto
    with Inl a Some show ?thesis by (simp add: ps_set_def local_state_eq)
  next
    case (Inr t1)
    from c Inr obtain t2 where 2: "?c2 = Inr t2" and "local_state t1 = local_state t2"
      by (cases ?c2) auto
    with Inr Some show ?thesis by (simp add: ps_set_def local_state_eq Let_def)
  qed
qed

theorem set_independent_of_nodes_witness:
  "store (new_storage defaultConfig (at_time 0)) = store (peers_offline (new_storage defaultConfig (at_time 0))) \<and>
   sizeTracker (new_storage defaultConfig (at_time 0)) = sizeTracker (peers_offline (new_storage defaultConfig (at_time 0))) \<and>
   replicationNodes (new_storage defaultConfig (at_time 0)) \<noteq> replicationNodes (peers_offline (new_storage defaultConfig (at_time 0))) \<and>
   fst (ps_set node_with_cipher defaultConfig (at_time 5000) ''k'' (JStr ''v'') no_options
          (peers_offline (new_storage defaultConfig (at_time 0)))) = True \<and>
   fst (ps_set node_with_cipher defaultConfig (at_time 5000) ''k'' (JStr ''v'') no_options
          (new_storage defaultConfig (at_time 0))) = True \<and>
   store (snd (ps_set node_with_cipher defaultConfig (at_time 5000) ''k'' (JStr ''v'') no_options
          (new_storage defaultConfig (at_time 0))))
     = store (snd (ps_set node_with_cipher defaultConfig (at_time 5000) ''k'' (JStr ''v'') no_options
          (peers_offline (new_storage defaultConfig (at_time 0))))) \<and>
   sizeTracker (snd (ps_set node_with_cipher defaultConfig (at_time 5000) ''k'' (JStr ''v'') no_options
          (new_storage defaultConfig (at_time 0))))
     = sizeTracker (snd (ps_set node_with_cipher defaultConfig (at_time 5000) ''k'' (JStr ''v'') no_options
          (peers_offline (new_storage defaultConfig (at_time 0)))))"
proof -
  let ?s1 = "new_storage defaultConfig (at_time 0)"
  let ?s2 = "peers_offline (new_storage defaultConfig (at_time 0))"
  have 1: "store ?s1 = store ?s2" by (simp add: peers_offline_def)
  have 2: "sizeTracker ?s1 = sizeTracker ?s2" by (simp add: peers_offline_def)
  have 3: "replicationNodes ?s1 \<noteq> replicationNodes ?s2" by code_simp
  have 4: "fst (ps_set node_with_cipher defaultConfig (at_time 5000) ''k'' (JStr ''v'') no_options ?s2) = True"
    by code_simp
  from set_independent_of_nodes [OF 1 2, of node_with_cipher defaultConfig "at_time 5000" "''k''" "JStr ''v''" no_options]
    1 2 3 4 show ?thesis by simp
qed

section \<open>C10: what an update keeps\<close>

text \<open>
  C10, as stated, has every \<^verbatim>\<open>put\<close> on a present key keep \<^verbatim>\<open>createdAt\<close> and
  \<^verbatim>\<open>id\<close>. \<^verbatim>\<open>set\<close> looks the key up after the cleanup: with a budget of 16
  characters and the key \<^verbatim>\<open>k\<close> holding 22, a second \<^verbatim>\<open>set\<close> on \<^verbatim>\<open>k\<close> first
  evicts \<^verbatim>\<open>k\<close> and then builds a new object, with a new \<^verbatim>\<open>id\<close>, the current time
  as \<^verbatim>\<open>createdAt\<close> and version 1.
\<close>

theorem update_after_eviction_counterexample:
  "map_option createdAt (map_get (store storage_over_budget) ''k'') = Some 1700000001000 \<and>
   map_option obj_id (map_get (store storage_over_budget) ''k'') = Some ''loyw3vu04fzyo'' \<and>
   fst (ps_set node_with_cipher tinyConfig (at_time 2000) ''k'' (JStr ''b'') no_options storage_over_budget) = True \<and>
   map_option createdAt (map_get (store (snd (ps_set node_with_cipher tinyConfig (at_time 2000) ''k''
      (JStr ''b'') no_options storage_over_budget))) ''k'') = Some 1700000002000 \<and>
   map_option obj_id (map_get (store (snd (ps_set node_with_cipher tinyConfig (at_time 2000) ''k''
      (JStr ''b'') no_options storage_over_budget))) ''k'') = Some ''loyw3wls4fzyo''"
  by code_simp

text \<open>
  C10 as amended: when the key is in the store at the moment the object is built, that
  is, after the cleanup that \<^verbatim>\<open>set\<close> runs first when the projected size is above the
  limit (no cleanup runs when it is not), and its \<^verbatim>\<open>id\<close> is not the empty string,
  \<^verbatim>\<open>set\<close> keeps \<^verbatim>\<open>id\<close> and \<^verbatim>\<open>createdAt\<close> and writes value, version, updatedAt,
  tags and ttl. Every \<^verbatim>\<open>id\<close> that \<^verbatim>\<open>generateId\<close> makes is non-empty.
\<close>

theorem set_keeps_identity:
  "(sizeInKB v = Some sz \<and> cleanup_phase cfg e sz s = Inr s1 \<and> map_get (store s1) key = Some ex \<and> obj_id ex \<noteq> []
      \<longrightarrow> map_get (store (snd (ps_set P cfg e key v options s))) key =
          Some \<lparr> obj_id = obj_id ex, obj_key = key, obj_value = encryptData P cfg e v,
                 createdAt = createdAt ex, updatedAt = now e, version = version ex + 1,
                 tags = (case opt_tags options of None \<Rightarrow> [] | Some ts \<Rightarrow> ts),
                 ttl = opt_ttl options \<rparr>) \<and>
   (sizeTracker s + sz \<le> maxStorageSize cfg * 1024 \<longrightarrow> cleanup_phase cfg e sz s = Inr s)"
  by (simp add: store_after_set cleanup_phase_not_needed)


theorem set_keeps_identity_witness:
  "sizeInKB (JStr ''w'') = Some (3 / 1024) \<and>
   sizeTracker storage_with_ttl + 3 / 1024 \<le> maxStorageSize defaultConfig * 1024 \<and>
   cleanup_phase defaultConfig (at_time 5500) (3 / 1024) storage_with_ttl = Inr storage_with_ttl \<and>
   map_option obj_id (map_get (store storage_with_ttl) ''k'') = Some ''loyw3yx44fzyo'' \<and>
   map_option createdAt (map_get (store storage_with_ttl) ''k'') = Some 1700000005000 \<and>
   map_option obj_id (map_get (store (snd (ps_set node_with_cipher defaultConfig (at_time 5500) ''k''
      (JStr ''w'') no_options storage_with_ttl))) ''k'') = Some ''loyw3yx44fzyo'' \<and>
   map_option createdAt (map_get (store (snd (ps_set node_with_cipher defaultConfig (at_time 5500) ''k''
      (JStr ''w'') no_options storage_with_ttl))) ''k'') = Some 1700000005000 \<and>
   map_option updatedAt (map_get (store (snd (ps_set node_with_cipher defaultConfig (at_time 5500) ''k''
      (JStr ''w'') no_options storage_with_ttl))) ''k'') = Some 1700000005500"
proof -
  define ex where "ex = the (map_get (store storage_with_ttl) ''k'')"
  have sz: "sizeInKB (JStr ''w'') = Some (3 / 1024)"
    by code_simp
  have fits: "sizeTracker storage_with_ttl + 3 / 1024 \<le> maxStorageSize defaultConfig * 1024"
    by code_simp
  have old: "map_get (store storage_with_ttl) ''k'' = Some ex"
    unfolding ex_def by code_simp
  have oid: "obj_id ex = ''loyw3yx44fzyo''" and cr: "createdAt ex = 1700000005000"
    unfolding ex_def by code_simp+
  have ne: "obj_id ex \<noteq> []"
    using oid by simp
  have now: "now (at_time 5500) = 1700000005500"
    by (simp add: at_time_def)
  note t = set_keeps_identity [where v = "JStr ''w''" and sz = "3 / 1024" and cfg = defaultConfig
      and e = "at_time 5500" and s = storage_with_ttl and ?s1.0 = storage_with_ttl
      and P = node_with_cipher and key = "''k''" and options = no_options and ex = ex]
  from t fits have cl: "cleanup_phase defaultConfig (at_time 5500) (3 / 1024) storage_with_ttl = Inr storage_with_ttl"
    by blast
  from t sz cl old ne have new: "map_get (store (snd (ps_set node_with_cipher defaultConfig (at_time 5500)
      ''k'' (JStr ''w'') no_options storage_with_ttl))) ''k'' =
          Some \<lparr> obj_id = obj_id ex, obj_key = ''k'',
                 obj_value = encryptData node_with_cipher defaultConfig (at_time 5500) (JStr ''w''),
                 createdAt = createdAt ex, updatedAt = now (at_time 5500), version = version ex + 1,
                 tags = (case opt_tags no_options of None \<Rightarrow> [] | Some ts \<Rightarrow> ts),
                 ttl = opt_ttl no_options \<rparr>"
    by blast
  from sz fits cl old oid cr now show ?thesis
    unfolding new by simp
qed


end
